theory Spec2Isabelle
  imports Main
begin

section \<open>The IR surface used by the reverse-mode AD pass\<close>

text \<open>
  The pass of \<^verbatim>\<open>simple_ad.cc\<close> works on expression nodes that are compared by
  identity (the keys of \<^verbatim>\<open>Map<Var, Var>\<close>, \<^verbatim>\<open>Map<Expr, Var>\<close> and
  \<^verbatim>\<open>std::set<Expr>\<close> are object pointers). Every node therefore carries a natural
  number standing for its address; a node built by the pass takes the next unused number.
\<close>

datatype ty = DynTensorType int string | TupleType "ty list" | ShapeType | ObjectType

datatype prim = IntImm int | PrimVar string

text \<open>
  The value returned by \<^verbatim>\<open>e->shape()\<close>. The pass only asks whether it is a tuple, a
  tuple projection or a shape expression, and passes it on as a call argument.
\<close>

datatype shape =
    ShapeExpr nat "prim list"
  | ShapeTuple nat "shape list"
  | ShapeGetItem nat shape int
  | RuntimeDepShape nat

fun shape_node :: "shape \<Rightarrow> nat" where
  "shape_node (ShapeExpr n vs) = n"
| "shape_node (ShapeTuple n ss) = n"
| "shape_node (ShapeGetItem n s k) = n"
| "shape_node (RuntimeDepShape n) = n"

datatype attrs = NoAttrs | InitAttrs string | OtherAttrs nat

datatype callee = Op string | ExternFunc string

record var =
  v_node :: nat
  vid :: nat
  name_hint :: string
  is_dataflow :: bool
  v_shape :: shape
  v_type :: "ty option"
  span :: "nat option"

datatype expr =
    Var var
  | Tuple nat "expr list"
  | TupleGetItem nat expr int
  | Call nat callee "expr list" attrs
  | Shape shape
  | Constant nat

fun node :: "expr \<Rightarrow> nat" where
  "node (Var v) = v_node v"
| "node (Tuple n fs) = n"
| "node (TupleGetItem n t k) = n"
| "node (Call n f args a) = n"
| "node (Shape s) = shape_node s"
| "node (Constant n) = n"

datatype binding = VarBinding var expr | MatchShape expr "prim list" var

datatype block = DataflowBlock "binding list" | BindingBlock "binding list"

datatype fbody = SeqExpr "block list" expr | NonSeq expr

record func =
  params :: "var list"
  body :: fbody
  ret_type :: ty
  ret_shape :: shape
  func_attrs :: "string \<rightharpoonup> string"

datatype base_func = RelaxFunction func | PrimFunc nat

type_synonym irmodule = "string \<rightharpoonup> base_func"

section \<open>Errors\<close>

text \<open>Every \<^verbatim>\<open>ICHECK\<close>, \<^verbatim>\<open>LOG(FATAL)\<close>, failing \<^verbatim>\<open>Downcast\<close> and failing container
  access of the source is one constructor.\<close>

datatype error =
    BodyNotSeqExpr
  | BlocksSizeNotOne
  | NotDataflowBlock
  | BodyNotVar
  | NotAnOutputNode
  | TargetNotDynTensorType
  | TargetShapeError
  | TargetNotScalar
  | PartialsNumberMismatch
  | ArgNotVar
  | UnsupportedBindingValue
  | BaseIncrementNotTuple
  | TupleOfTupleGetItemNotVar
  | NestedTupleGetItem
  | TypeOfTupleNotTuple
  | AdjointOfVarNotTuple
  | NotALeafNode
  | UnsupportedEmptyExpr
  | SizeOfTupleNotMatch
  | TypeNotMatch
  | CheckedTypeUndefined
  | DowncastFailed
  | MapKeyMissing
  | ArrayIndexOutOfRange
  | GradientNotRegistered
  | GradientFailed
  | FunctionNotFound
  | RelaxFunctionNotFound
  | NoVarNamed

section \<open>The state of one pass invocation\<close>

datatype emitted = Reemit binding | Emit binding | EmitOutput binding

text \<open>
  The fields of \<^verbatim>\<open>SimpleADMutator\<close>, the bindings handed to the block builder, the
  identity allocator, and the two fields \<^verbatim>\<open>checked_type_\<close> and \<^verbatim>\<open>shape_\<close> that
  \<^verbatim>\<open>BindAndEmit\<close> and \<^verbatim>\<open>UpdateExprMap\<close> overwrite in place on existing nodes
  (kept as an overlay on the nodes, keyed by identity).
\<close>

record ad_state =
  adjoint_var_map :: "nat \<rightharpoonup> var"
  adjoint_expr_map :: "nat \<rightharpoonup> expr"
  adjoint_binding :: "nat \<rightharpoonup> var"
  zeros_tracker :: "nat set"
  target_var :: "var option"
  builder :: "emitted list"
  type_stamp :: "nat \<rightharpoonup> ty"
  shape_stamp :: "nat \<rightharpoonup> shape"
  next_node :: nat

definition checked_type_field :: "ad_state \<Rightarrow> var \<Rightarrow> ty option" where
  "checked_type_field st v =
     (case type_stamp st (v_node v) of Some t \<Rightarrow> Some t | None \<Rightarrow> v_type v)"

definition shape :: "ad_state \<Rightarrow> var \<Rightarrow> shape" where
  "shape st v = (case shape_stamp st (v_node v) of Some s \<Rightarrow> s | None \<Rightarrow> v_shape v)"

text \<open>\<^verbatim>\<open>checked_type()\<close> asserts that the field is defined.\<close>

definition checked_type :: "ad_state \<Rightarrow> var \<Rightarrow> error + ty" where
  "checked_type st v =
     (case checked_type_field st v of None \<Rightarrow> Inl CheckedTypeUndefined | Some t \<Rightarrow> Inr t)"

definition fresh :: "ad_state \<Rightarrow> ad_state" where
  "fresh st = st\<lparr>next_node := Suc (next_node st)\<rparr>"

definition bind_err :: "error + 'a \<Rightarrow> ('a \<Rightarrow> error + 'b) \<Rightarrow> error + 'b" where
  "bind_err m f = (case m of Inl e \<Rightarrow> Inl e | Inr x \<Rightarrow> f x)"

section \<open>Queries on annotations (utils.cc)\<close>

text \<open>
  \<^verbatim>\<open>IsScalarTensor\<close>: a tensor whose shape is a shape expression with no dimension.
  \<^verbatim>\<open>IsNestedTensor\<close>: a tensor, or a tuple of nested tensors. Both are given here on
  the type and shape annotations that stand for the structural information of a variable.
\<close>

definition IsScalarTensor :: "var \<Rightarrow> bool" where
  "IsScalarTensor v =
     (case v_type v of
        Some (DynTensorType ndim dtype) \<Rightarrow>
          (case v_shape v of ShapeExpr n values \<Rightarrow> length values = 0 | _ \<Rightarrow> False)
      | _ \<Rightarrow> False)"

fun IsNestedTensor :: "ty \<Rightarrow> bool" where
  "IsNestedTensor (DynTensorType ndim dtype) = True"
| "IsNestedTensor (TupleType fs) = (\<not> list_ex (\<lambda>field. \<not> IsNestedTensor field) fs)"
| "IsNestedTensor t = False"

section \<open>The adjoint tables\<close>

definition CreateAdjointVar :: "var \<Rightarrow> bool \<Rightarrow> ad_state \<Rightarrow> error + ad_state" where
  "CreateAdjointVar v is_dataflow_var st =
     (if adjoint_var_map st (v_node v) \<noteq> None then Inr st
      else case checked_type st v of
        Inl e \<Rightarrow> Inl e
      | Inr t \<Rightarrow>
          Inr (fresh (st\<lparr>adjoint_var_map := (adjoint_var_map st)(v_node v \<mapsto>
                 \<lparr>v_node = next_node st, vid = next_node st,
                  name_hint = name_hint v @ ''_adjoint'',
                  is_dataflow = is_dataflow_var,
                  v_shape = shape st v, v_type = Some t, span = None\<rparr>)\<rparr>)))"

definition emit_binding :: "var \<Rightarrow> expr \<Rightarrow> ad_state \<Rightarrow> ad_state" where
  "emit_binding v e st =
     st\<lparr>builder := builder st @
          [if is_dataflow v then Emit (VarBinding v e) else EmitOutput (VarBinding v e)]\<rparr>"

definition BindAndEmit :: "var \<Rightarrow> expr \<Rightarrow> ad_state \<Rightarrow> error + ad_state" where
  "BindAndEmit v e st =
     (case adjoint_binding st (node e) of
        Some u \<Rightarrow> Inr (emit_binding v (Var u) st)
      | None \<Rightarrow>
          (case checked_type st v of
             Inl err \<Rightarrow> Inl err
           | Inr t \<Rightarrow>
               Inr (emit_binding v e
                 (st\<lparr>adjoint_binding := (adjoint_binding st)(node e \<mapsto> v),
                     type_stamp := (type_stamp st)(node e \<mapsto> t),
                     shape_stamp := (shape_stamp st)(node e \<mapsto> shape st v)\<rparr>))))"

definition add_call :: "nat \<Rightarrow> expr \<Rightarrow> expr \<Rightarrow> expr" where
  "add_call n a b = Call n (Op ''relax.add'') [a, b] NoAttrs"

fun is_Tuple :: "expr \<Rightarrow> bool" where
  "is_Tuple (Tuple n fs) = True"
| "is_Tuple e = False"

fun is_TupleGetItem :: "expr \<Rightarrow> bool" where
  "is_TupleGetItem (TupleGetItem n t k) = True"
| "is_TupleGetItem e = False"

fun is_Var :: "expr \<Rightarrow> bool" where
  "is_Var (Var v) = True"
| "is_Var e = False"

fun is_Call :: "expr \<Rightarrow> bool" where
  "is_Call (Call n f args a) = True"
| "is_Call e = False"

fun DoAdd :: "ad_state \<Rightarrow> expr \<Rightarrow> expr \<Rightarrow> error + (expr \<times> ad_state)"
  and DoAdd_fields :: "ad_state \<Rightarrow> expr list \<Rightarrow> expr list \<Rightarrow> error + (expr list \<times> ad_state)"
where
  "DoAdd st src1 src2 =
     (if node src1 \<in> zeros_tracker st then Inr (src2, st)
      else if node src2 \<in> zeros_tracker st then Inr (src1, st)
      else case src1 of
        Tuple n1 fields1 \<Rightarrow>
          (case src2 of
             Tuple n2 fields2 \<Rightarrow>
               if length fields1 \<noteq> length fields2 then Inl SizeOfTupleNotMatch
               else (case DoAdd_fields st fields1 fields2 of
                       Inl e \<Rightarrow> Inl e
                     | Inr (result, st') \<Rightarrow> Inr (Tuple (next_node st') result, fresh st'))
           | _ \<Rightarrow> Inl TypeNotMatch)
      | _ \<Rightarrow>
          (case adjoint_binding st (node src2) of
             Some u \<Rightarrow> Inr (add_call (next_node st) src1 (Var u), fresh st)
           | None \<Rightarrow> Inr (add_call (next_node st) src1 src2, fresh st)))"
| "DoAdd_fields st [] fs2 = Inr ([], st)"
| "DoAdd_fields st (f1 # fs1) [] = Inl ArrayIndexOutOfRange"
| "DoAdd_fields st (f1 # fs1) (f2 # fs2) =
     (case DoAdd st f1 f2 of
        Inl e \<Rightarrow> Inl e
      | Inr (r, st') \<Rightarrow>
          (case DoAdd_fields st' fs1 fs2 of
             Inl e \<Rightarrow> Inl e
           | Inr (rs, st'') \<Rightarrow> Inr (r # rs, st'')))"

fun DoAddInTuple_fields ::
  "ad_state \<Rightarrow> expr list \<Rightarrow> int \<Rightarrow> int \<Rightarrow> expr \<Rightarrow> error + (expr list \<times> ad_state)"
where
  "DoAddInTuple_fields st [] i index increment = Inr ([], st)"
| "DoAddInTuple_fields st (f # fs) i index increment =
     (if i = index then
        (case DoAdd st f increment of
           Inl e \<Rightarrow> Inl e
         | Inr (r, st') \<Rightarrow>
             (case DoAddInTuple_fields st' fs (i + 1) index increment of
                Inl e \<Rightarrow> Inl e
              | Inr (rs, st'') \<Rightarrow> Inr (r # rs, st'')))
      else
        (case DoAddInTuple_fields st fs (i + 1) index increment of
           Inl e \<Rightarrow> Inl e
         | Inr (rs, st') \<Rightarrow> Inr (f # rs, st')))"

definition DoAddInTuple ::
  "ad_state \<Rightarrow> expr list \<Rightarrow> int \<Rightarrow> expr \<Rightarrow> error + (expr \<times> ad_state)"
where
  "DoAddInTuple st origin_fields index increment =
     (case DoAddInTuple_fields st origin_fields 0 index increment of
        Inl e \<Rightarrow> Inl e
      | Inr (ret, st') \<Rightarrow> Inr (Tuple (next_node st') ret, fresh st'))"

definition zeros_call :: "nat \<Rightarrow> shape \<Rightarrow> string \<Rightarrow> expr" where
  "zeros_call n s dtype = Call n (Op ''relax.zeros'') [Shape s] (InitAttrs dtype)"

definition ones_call :: "nat \<Rightarrow> shape \<Rightarrow> string \<Rightarrow> expr" where
  "ones_call n s dtype = Call n (Op ''relax.ones'') [Shape s] (InitAttrs dtype)"

text \<open>
  \<^verbatim>\<open>BuildEmptyNestedTupleExpr(shape, type)\<close>: the loop runs over the fields of the
  shape tuple and reads \<^verbatim>\<open>type->fields[i]\<close> at the same index.
\<close>

fun BuildEmptyNestedTupleExpr ::
  "ad_state \<Rightarrow> shape list \<Rightarrow> ty list \<Rightarrow> error + (expr \<times> ad_state)"
  and BuildEmpty_fields ::
  "ad_state \<Rightarrow> shape list \<Rightarrow> ty list \<Rightarrow> error + (expr list \<times> ad_state)"
where
  "BuildEmptyNestedTupleExpr st shape_fields type_fields =
     (case BuildEmpty_fields st shape_fields type_fields of
        Inl e \<Rightarrow> Inl e
      | Inr (ret, st') \<Rightarrow> Inr (Tuple (next_node st') ret, fresh st'))"
| "BuildEmpty_fields st [] ts = Inr ([], st)"
| "BuildEmpty_fields st (ShapeTuple n ss # rest) ts =
     (case ts of
        [] \<Rightarrow> Inl ArrayIndexOutOfRange
      | TupleType tfs # ts' \<Rightarrow>
          (case BuildEmptyNestedTupleExpr st ss tfs of
             Inl e \<Rightarrow> Inl e
           | Inr (r, st') \<Rightarrow>
               (case BuildEmpty_fields st' rest ts' of
                  Inl e \<Rightarrow> Inl e
                | Inr (rs, st'') \<Rightarrow> Inr (r # rs, st'')))
      | _ # ts' \<Rightarrow> Inl DowncastFailed)"
| "BuildEmpty_fields st (ShapeExpr n vs # rest) ts =
     (case ts of
        [] \<Rightarrow> Inl ArrayIndexOutOfRange
      | DynTensorType ndim dtype # ts' \<Rightarrow>
          (case BuildEmpty_fields
                  (fresh (st\<lparr>zeros_tracker := insert (next_node st) (zeros_tracker st)\<rparr>))
                  rest ts' of
             Inl e \<Rightarrow> Inl e
           | Inr (rs, st') \<Rightarrow>
               Inr (zeros_call (next_node st) (ShapeExpr n vs) dtype # rs, st'))
      | _ # ts' \<Rightarrow> Inl DowncastFailed)"
| "BuildEmpty_fields st (s # rest) ts = Inl UnsupportedEmptyExpr"

text \<open>\<^verbatim>\<open>Map::operator[]\<close> on a missing key fails.\<close>

definition map_at :: "(nat \<rightharpoonup> 'a) \<Rightarrow> nat \<Rightarrow> error + 'a" where
  "map_at m k = (case m k of None \<Rightarrow> Inl MapKeyMissing | Some x \<Rightarrow> Inr x)"

definition set_adjoint_expr :: "var \<Rightarrow> expr \<Rightarrow> ad_state \<Rightarrow> ad_state" where
  "set_adjoint_expr v e st = st\<lparr>adjoint_expr_map := (adjoint_expr_map st)(v_node v \<mapsto> e)\<rparr>"

text \<open>The first half of the tuple-projection case of \<^verbatim>\<open>UpdateExprMap\<close>: the entry
  of \<open>v\<close> is created as a nested tuple of zeros when it is missing.\<close>

definition init_tuple_adjoint :: "var \<Rightarrow> shape list \<Rightarrow> ad_state \<Rightarrow> error + ad_state" where
  "init_tuple_adjoint v shape_fields st =
     (if adjoint_expr_map st (v_node v) \<noteq> None then Inr st
      else case checked_type st v of
        Inl e \<Rightarrow> Inl e
      | Inr (TupleType type_fields) \<Rightarrow>
          (case BuildEmptyNestedTupleExpr st shape_fields type_fields of
             Inl e \<Rightarrow> Inl e
           | Inr (init, st') \<Rightarrow>
               Inr (set_adjoint_expr v init
                 (st'\<lparr>type_stamp := (type_stamp st')(node init \<mapsto> TupleType type_fields)\<rparr>)))
      | Inr _ \<Rightarrow> Inl DowncastFailed)"

fun UpdateExprMap :: "ad_state \<Rightarrow> expr \<Rightarrow> expr \<Rightarrow> error + ad_state"
  and UpdateExprMap_fields :: "ad_state \<Rightarrow> expr list \<Rightarrow> expr list \<Rightarrow> error + ad_state"
where
  "UpdateExprMap st (Var v) increment =
     (case adjoint_expr_map st (v_node v) of
        None \<Rightarrow>
          (case adjoint_binding st (node increment) of
             Some u \<Rightarrow> Inr (set_adjoint_expr v (Var u) st)
           | None \<Rightarrow> Inr (set_adjoint_expr v increment st))
      | Some old \<Rightarrow>
          (case DoAdd st old increment of
             Inl e \<Rightarrow> Inl e
           | Inr (updated, st') \<Rightarrow> Inr (set_adjoint_expr v updated st')))"
| "UpdateExprMap st (Tuple n base_fields) increment =
     (case increment of
        Tuple n1 fields1 \<Rightarrow> UpdateExprMap_fields st base_fields fields1
      | _ \<Rightarrow> Inl BaseIncrementNotTuple)"
| "UpdateExprMap st (TupleGetItem n tuple index) increment =
     (case tuple of
        Var v \<Rightarrow>
          (case shape st v of
             ShapeGetItem m s k \<Rightarrow> Inl NestedTupleGetItem
           | ShapeTuple m shape_fields \<Rightarrow>
               (case init_tuple_adjoint v shape_fields st of
                  Inl e \<Rightarrow> Inl e
                | Inr st1 \<Rightarrow>
                    (case adjoint_expr_map st1 (v_node v) of
                       None \<Rightarrow> Inl MapKeyMissing
                     | Some (Tuple k origin_fields) \<Rightarrow>
                         (case DoAddInTuple st1 origin_fields index increment of
                            Inl e \<Rightarrow> Inl e
                          | Inr (updated, st2) \<Rightarrow> Inr (set_adjoint_expr v updated st2))
                     | Some _ \<Rightarrow> Inl AdjointOfVarNotTuple))
           | _ \<Rightarrow> Inl TypeOfTupleNotTuple)
      | _ \<Rightarrow> Inl TupleOfTupleGetItemNotVar)"
| "UpdateExprMap st base increment = Inl NotALeafNode"
| "UpdateExprMap_fields st [] incs = Inr st"
| "UpdateExprMap_fields st (b # bs) [] = Inl ArrayIndexOutOfRange"
| "UpdateExprMap_fields st (b # bs) (i # incs) =
     (case UpdateExprMap st b i of
        Inl e \<Rightarrow> Inl e
      | Inr st' \<Rightarrow> UpdateExprMap_fields st' bs incs)"


section \<open>The reverse walk\<close>

text \<open>
  The external collaborators of the pass. \<open>gradient_op_map\<close> is the registry
  \<^verbatim>\<open>FPrimalGradient\<close>: a gradient function receives the call, the adjoint variable of
  the result and the next unused identity, and returns the partials with the next unused
  identity after its own nodes (or fails). \<open>Normalize\<close> is the block builder's
  normalisation of the finished body.
\<close>

record externals =
  gradient_op_map :: "string \<Rightarrow> (expr \<Rightarrow> var \<Rightarrow> nat \<Rightarrow> (expr list \<times> nat) option) option"
  Normalize :: "fbody \<Rightarrow> fbody"

text \<open>\<^verbatim>\<open>Downcast<DynTensorType>(var->checked_type_)\<close> followed by \<^verbatim>\<open>type->dtype\<close>;
  on an undefined field the source dereferences a null reference.\<close>

definition dyn_tensor_dtype :: "ad_state \<Rightarrow> var \<Rightarrow> error + string" where
  "dyn_tensor_dtype st v =
     (case checked_type_field st v of
        Some (DynTensorType ndim dtype) \<Rightarrow> Inr dtype
      | _ \<Rightarrow> Inl DowncastFailed)"

definition InitGrad :: "var \<Rightarrow> var \<Rightarrow> ad_state \<Rightarrow> error + ad_state" where
  "InitGrad adjoint_var v st =
     bind_err (dyn_tensor_dtype st v) (\<lambda>dtype.
       Inr (set_adjoint_expr v (ones_call (next_node st) (shape st v) dtype) (fresh st)))"

definition CheckTarget :: "ad_state \<Rightarrow> var \<Rightarrow> error + unit" where
  "CheckTarget st e =
     (if is_dataflow e then Inl NotAnOutputNode
      else case checked_type_field st e of
        Some (DynTensorType ndim dtype) \<Rightarrow>
          (case shape st e of
             ShapeExpr n values \<Rightarrow>
               if length values = 0 then Inr () else Inl TargetNotScalar
           | _ \<Rightarrow> Inl TargetShapeError)
      | _ \<Rightarrow> Inl TargetNotDynTensorType)"

text \<open>The loop of case 4 of \<^verbatim>\<open>ReverseVisit\<close> over the partials (as many as arguments).\<close>

fun update_args :: "ad_state \<Rightarrow> expr list \<Rightarrow> expr list \<Rightarrow> error + ad_state" where
  "update_args st args [] = Inr st"
| "update_args st [] (p # partials) = Inl ArrayIndexOutOfRange"
| "update_args st (a # args) (p # partials) =
     (case a of
        Var arg \<Rightarrow>
          (case UpdateExprMap st (Var arg) p of
             Inl e \<Rightarrow> Inl e
           | Inr st' \<Rightarrow> update_args st' args partials)
      | _ \<Rightarrow> Inl ArgNotVar)"

definition call_gradient ::
  "externals \<Rightarrow> callee \<Rightarrow> expr \<Rightarrow> var \<Rightarrow> ad_state \<Rightarrow> error + (expr list \<times> ad_state)"
where
  "call_gradient ext f call adjoint_var st =
     (case f of
        Op name \<Rightarrow>
          (case gradient_op_map ext name of
             None \<Rightarrow> Inl GradientNotRegistered
           | Some g \<Rightarrow>
               (case g call adjoint_var (next_node st) of
                  None \<Rightarrow> Inl GradientFailed
                | Some (partials, n') \<Rightarrow> Inr (partials, st\<lparr>next_node := n'\<rparr>)))
      | _ \<Rightarrow> Inl GradientNotRegistered)"

definition back_propagate :: "externals \<Rightarrow> var \<Rightarrow> expr \<Rightarrow> expr \<Rightarrow> ad_state \<Rightarrow> error + ad_state" where
  "back_propagate ext adjoint_var val adjoint_expr st =
     (case val of
        Tuple n fs \<Rightarrow> UpdateExprMap st (Tuple n fs) adjoint_expr
      | TupleGetItem n t k \<Rightarrow> UpdateExprMap st (TupleGetItem n t k) adjoint_expr
      | Var y \<Rightarrow> UpdateExprMap st (Var y) adjoint_expr
      | Call n f args a \<Rightarrow>
          bind_err (call_gradient ext f (Call n f args a) adjoint_var st) (\<lambda>(partials, st').
            if length partials \<noteq> length args then Inl PartialsNumberMismatch
            else update_args st' args partials)
      | _ \<Rightarrow> Inl UnsupportedBindingValue)"

definition same_var :: "var \<Rightarrow> var option \<Rightarrow> bool" where
  "same_var v t = (case t of None \<Rightarrow> False | Some w \<Rightarrow> v_node v = v_node w)"

text \<open>The test at the head of \<^verbatim>\<open>ReverseVisit\<close>: \<open>None\<close> is the early return.\<close>

definition seed_or_skip :: "var \<Rightarrow> var \<Rightarrow> ad_state \<Rightarrow> error + ad_state option" where
  "seed_or_skip adjoint_var binding_var st =
     (if adjoint_expr_map st (v_node binding_var) = None then
        (if same_var binding_var (target_var st)
         then bind_err (InitGrad adjoint_var binding_var st) (\<lambda>st'. Inr (Some st'))
         else Inr None)
      else Inr (Some st))"

definition ReverseVisit :: "externals \<Rightarrow> var \<Rightarrow> expr \<Rightarrow> ad_state \<Rightarrow> error + ad_state" where
  "ReverseVisit ext binding_var binding_value st =
     bind_err (CreateAdjointVar binding_var True st) (\<lambda>st1.
     bind_err (map_at (adjoint_var_map st1) (v_node binding_var)) (\<lambda>adjoint_var.
     bind_err (seed_or_skip adjoint_var binding_var st1) (\<lambda>r.
       case r of
         None \<Rightarrow> Inr st1
       | Some st2 \<Rightarrow>
           bind_err (map_at (adjoint_expr_map st2) (v_node binding_var)) (\<lambda>adjoint_expr.
           bind_err (BindAndEmit adjoint_var adjoint_expr st2) (\<lambda>st3.
             back_propagate ext adjoint_var binding_value adjoint_expr st3)))))"

definition reverse_step :: "externals \<Rightarrow> binding \<Rightarrow> ad_state \<Rightarrow> error + ad_state" where
  "reverse_step ext b st =
     (case b of
        VarBinding v e \<Rightarrow> ReverseVisit ext v e st
      | MatchShape e pattern v \<Rightarrow> Inr st)"

text \<open>The loop \<^verbatim>\<open>for (i = size - 1; i >= 0; --i)\<close>, given the bindings last to first.\<close>

fun reverse_loop :: "externals \<Rightarrow> binding list \<Rightarrow> ad_state \<Rightarrow> error + ad_state" where
  "reverse_loop ext [] st = Inr st"
| "reverse_loop ext (b # bs) st =
     (case reverse_step ext b st of
        Inl e \<Rightarrow> Inl e
      | Inr st' \<Rightarrow> reverse_loop ext bs st')"


section \<open>The transformation of the function\<close>

text \<open>The first loop of \<^verbatim>\<open>FuncTransform\<close>: one new \<^verbatim>\<open>Var\<close> per parameter, registered
  in \<^verbatim>\<open>var_remap_\<close> under the identifier of the old one.\<close>

fun clone_params ::
  "var list \<Rightarrow> (nat \<rightharpoonup> var) \<Rightarrow> ad_state \<Rightarrow> var list \<times> (nat \<rightharpoonup> var) \<times> ad_state"
where
  "clone_params [] var_remap st = ([], var_remap, st)"
| "clone_params (param # ps) var_remap st =
     (let new_param = \<lparr>v_node = next_node st, vid = vid param, name_hint = name_hint param,
                       is_dataflow = False, v_shape = shape st param,
                       v_type = checked_type_field st param, span = span param\<rparr>
      in case clone_params ps (var_remap(vid param \<mapsto> new_param)) (fresh st) of
           (rest, var_remap', st') \<Rightarrow> (new_param # rest, var_remap', st'))"

text \<open>
  Modelled from the spec: \<^verbatim>\<open>ExprMutator::VisitWithNewScope\<close> and
  \<^verbatim>\<open>ExprMutator::VisitBinding\<close> are not part of the sources at hand. The forward cloner
  "reproduces the forward region, remapping input parameters to fresh parameters" and makes
  "no structural change to the forward program": every reference to a variable whose
  identifier is registered in \<^verbatim>\<open>var_remap_\<close> becomes the registered variable, and
  nothing else changes.
\<close>

fun remap_expr :: "(nat \<rightharpoonup> var) \<Rightarrow> expr \<Rightarrow> expr" where
  "remap_expr m (Var v) = (case m (vid v) of Some v' \<Rightarrow> Var v' | None \<Rightarrow> Var v)"
| "remap_expr m (Tuple n fs) = Tuple n (map (remap_expr m) fs)"
| "remap_expr m (TupleGetItem n t k) = TupleGetItem n (remap_expr m t) k"
| "remap_expr m (Call n f args a) = Call n f (map (remap_expr m) args) a"
| "remap_expr m (Shape s) = Shape s"
| "remap_expr m (Constant n) = Constant n"

fun remap_binding :: "(nat \<rightharpoonup> var) \<Rightarrow> binding \<Rightarrow> binding" where
  "remap_binding m (VarBinding v e) = VarBinding v (remap_expr m e)"
| "remap_binding m (MatchShape e pattern v) = MatchShape (remap_expr m e) pattern v"

fun remap_block :: "(nat \<rightharpoonup> var) \<Rightarrow> block \<Rightarrow> block" where
  "remap_block m (DataflowBlock bs) = DataflowBlock (map (remap_binding m) bs)"
| "remap_block m (BindingBlock bs) = BindingBlock (map (remap_binding m) bs)"

definition requires_grad :: "var list \<Rightarrow> var \<Rightarrow> bool" where
  "requires_grad require_grads param =
     (require_grads = [] \<or> v_node param \<in> set (map v_node require_grads))"

text \<open>The loop "create adjoint var for inputs", over \<^verbatim>\<open>node->params\<close> and
  \<^verbatim>\<open>new_params\<close> side by side.\<close>

fun create_input_adjoints ::
  "var list \<Rightarrow> var list \<Rightarrow> var list \<Rightarrow> ad_state \<Rightarrow> error + ad_state"
where
  "create_input_adjoints require_grads (param # ps) (new_param # nps) st =
     (case CreateAdjointVar new_param (\<not> requires_grad require_grads param) st of
        Inl e \<Rightarrow> Inl e
      | Inr st' \<Rightarrow> create_input_adjoints require_grads ps nps st')"
| "create_input_adjoints require_grads ps nps st = Inr st"

text \<open>The body of the loop "emit the input adjoints" for a selected parameter.\<close>

definition emit_input_adjoint :: "var \<Rightarrow> ad_state \<Rightarrow> error + (var \<times> ty \<times> ad_state)" where
  "emit_input_adjoint new_param st =
     bind_err (map_at (adjoint_var_map st) (v_node new_param)) (\<lambda>adjoint_var.
     bind_err (case adjoint_expr_map st (v_node new_param) of
                 Some adjoint_expr \<Rightarrow> BindAndEmit adjoint_var adjoint_expr st
               | None \<Rightarrow>
                   bind_err (dyn_tensor_dtype st new_param) (\<lambda>dtype.
                     BindAndEmit adjoint_var
                       (zeros_call (next_node st) (shape st new_param) dtype) (fresh st)))
       (\<lambda>st'.
     bind_err (checked_type st' adjoint_var) (\<lambda>t. Inr (adjoint_var, t, st'))))"

fun emit_input_adjoints ::
  "var list \<Rightarrow> var list \<Rightarrow> var list \<Rightarrow> ad_state \<Rightarrow> error + (var list \<times> ty list \<times> ad_state)"
where
  "emit_input_adjoints require_grads (param # ps) (new_param # nps) st =
     (if requires_grad require_grads param then
        (case emit_input_adjoint new_param st of
           Inl e \<Rightarrow> Inl e
         | Inr (adjoint_var, t, st') \<Rightarrow>
             (case emit_input_adjoints require_grads ps nps st' of
                Inl e \<Rightarrow> Inl e
              | Inr (out_adjoints, out_adjoints_type, st'') \<Rightarrow>
                  Inr (adjoint_var # out_adjoints, t # out_adjoints_type, st'')))
      else emit_input_adjoints require_grads ps nps st)"
| "emit_input_adjoints require_grads ps nps st = Inr ([], [], st)"

fun binding_of :: "emitted \<Rightarrow> binding" where
  "binding_of (Reemit b) = b"
| "binding_of (Emit b) = b"
| "binding_of (EmitOutput b) = b"

text \<open>\<^verbatim>\<open>builder_->EndBlock()\<close> of a block begun with \<^verbatim>\<open>BeginDataflowBlock\<close>.\<close>

definition EndBlock :: "ad_state \<Rightarrow> block" where
  "EndBlock st = DataflowBlock (map binding_of (builder st))"

text \<open>The part of \<^verbatim>\<open>FuncTransform\<close> after the forward bindings have been emitted again.\<close>

definition differentiate ::
  "externals \<Rightarrow> var list \<Rightarrow> func \<Rightarrow> var list \<Rightarrow> binding list \<Rightarrow> expr \<Rightarrow> ad_state \<Rightarrow>
     error + (func \<times> ad_state)"
where
  "differentiate ext require_grads f new_params bindings seq_body st =
     bind_err (create_input_adjoints require_grads (params f) new_params st) (\<lambda>st1.
     bind_err (case seq_body of
                 Var target \<Rightarrow>
                   bind_err (CheckTarget st1 target) (\<lambda>_. Inr (st1\<lparr>target_var := Some target\<rparr>))
               | _ \<Rightarrow> Inl BodyNotVar) (\<lambda>st2.
     bind_err (reverse_loop ext (rev bindings) st2) (\<lambda>st3.
     bind_err (emit_input_adjoints require_grads (params f) new_params st3)
       (\<lambda>(out_adjoints, out_adjoints_type, st4).
         let out_expr = [seq_body, Tuple (next_node st4) (map Var out_adjoints)];
             new_ret_type = TupleType [ret_type f, TupleType out_adjoints_type];
             final_body = Normalize ext
               (SeqExpr [EndBlock st4] (Tuple (Suc (next_node st4)) out_expr))
         in Inr (\<lparr>params = new_params, body = final_body, ret_type = new_ret_type,
                   ret_shape = RuntimeDepShape (Suc (Suc (next_node st4))),
                   func_attrs = func_attrs f\<rparr>,
                 st4\<lparr>next_node := next_node st4 + 3\<rparr>)))))"

definition FuncTransform ::
  "externals \<Rightarrow> var list \<Rightarrow> func \<Rightarrow> ad_state \<Rightarrow> error + (func \<times> ad_state)"
where
  "FuncTransform ext require_grads f st =
     (case body f of
        NonSeq e \<Rightarrow> Inl BodyNotSeqExpr
      | SeqExpr blocks seq_body \<Rightarrow>
          (case clone_params (params f) Map.empty st of
             (new_params, var_remap, st1) \<Rightarrow>
               (case map (remap_block var_remap) blocks of
                  [DataflowBlock bindings] \<Rightarrow>
                    differentiate ext require_grads f new_params bindings
                      (remap_expr var_remap seq_body)
                      (st1\<lparr>builder := map Reemit bindings\<rparr>)
                | [BindingBlock bindings] \<Rightarrow> Inl NotDataflowBlock
                | _ \<Rightarrow> Inl BlocksSizeNotOne)))"

section \<open>The pass entry\<close>

definition init_state :: "nat \<Rightarrow> ad_state" where
  "init_state n =
     \<lparr>adjoint_var_map = Map.empty, adjoint_expr_map = Map.empty, adjoint_binding = Map.empty,
      zeros_tracker = {}, target_var = None, builder = [],
      type_stamp = Map.empty, shape_stamp = Map.empty, next_node = n\<rparr>"

text \<open>
  Modelled from the spec: the module operations \<^verbatim>\<open>IRModuleNode::Lookup\<close>,
  \<^verbatim>\<open>IRModule::CopyOnWrite\<close>, \<^verbatim>\<open>IRModuleNode::Add\<close> and \<^verbatim>\<open>WithAttr\<close> are not part of
  the sources at hand. A module binds names to functions; a name that is not bound is the
  error "function not found"; the output is "a new module equal to M plus a new function
  bound to the name"; the new function "carries a global-symbol attribute" of that name.
\<close>

definition Lookup :: "irmodule \<Rightarrow> string \<Rightarrow> error + base_func" where
  "Lookup m name = (case m name of None \<Rightarrow> Inl FunctionNotFound | Some f \<Rightarrow> Inr f)"

definition Add :: "irmodule \<Rightarrow> string \<Rightarrow> func \<Rightarrow> irmodule" where
  "Add m name f = m(name \<mapsto> RelaxFunction f)"

definition WithAttr :: "func \<Rightarrow> string \<Rightarrow> string \<Rightarrow> func" where
  "WithAttr f key val = f\<lparr>func_attrs := (func_attrs f)(key \<mapsto> val)\<rparr>"

text \<open>
  \<open>SimpleAD ext n m name require_grads\<close>, where \<open>n\<close> is the first identity not in use
  when the pass starts. The result is the new module together with the fields that the
  pass has overwritten in place on existing nodes.
\<close>

definition SimpleAD ::
  "externals \<Rightarrow> nat \<Rightarrow> irmodule \<Rightarrow> string \<Rightarrow> var list \<Rightarrow>
     error + (irmodule \<times> (nat \<rightharpoonup> ty) \<times> (nat \<rightharpoonup> shape))"
where
  "SimpleAD ext n m name require_grads =
     bind_err (Lookup m name) (\<lambda>base_func.
       case base_func of
         RelaxFunction f_before \<Rightarrow>
           if \<not> list_all (\<lambda>input. v_node input \<in> set (map v_node (params f_before))) require_grads
           then Inl NoVarNamed
           else
             bind_err (FuncTransform ext require_grads f_before (init_state n))
               (\<lambda>(f_after, st).
                 let adjoint_name = name @ ''_adjoint''
                 in Inr (Add m adjoint_name (WithAttr f_after ''global_symbol'' adjoint_name),
                         type_stamp st, shape_stamp st))
       | PrimFunc k \<Rightarrow> Inl RelaxFunctionNotFound)"


section \<open>The fields overwritten when a run aborts\<close>

text \<open>
  The pass overwrites \<^verbatim>\<open>checked_type_\<close> and \<^verbatim>\<open>shape_\<close> of a node in two places:
  at the end of \<^verbatim>\<open>BindAndEmit\<close>, and on the tuple of zeros that the tuple-projection
  case of \<^verbatim>\<open>UpdateExprMap\<close> has just built. A fatal error unwinds the pass and leaves
  these writes where they are. A result \<open>Inl e\<close> does not carry them, so they are given
  here: for every function \<open>f\<close> of the pass that reaches one of the two places,
  \<open>f_abort\<close> follows the run of \<open>f\<close> step by step to the step that fails and returns
  the fields overwritten by the steps completed before it. A step that fails has written
  nothing itself: in \<^verbatim>\<open>BindAndEmit\<close> and in the tuple-projection case the write follows
  the last check, and no other function writes. Where the run of \<open>f\<close> returns,
  \<open>f_abort\<close> arrives at the fields of the state returned.
\<close>

type_synonym written = "(nat \<rightharpoonup> ty) \<times> (nat \<rightharpoonup> shape)"

definition written_fields :: "ad_state \<Rightarrow> written" where
  "written_fields st = (type_stamp st, shape_stamp st)"

fun UpdateExprMap_abort :: "ad_state \<Rightarrow> expr \<Rightarrow> expr \<Rightarrow> written"
  and UpdateExprMap_fields_abort :: "ad_state \<Rightarrow> expr list \<Rightarrow> expr list \<Rightarrow> written"
where
  "UpdateExprMap_abort st (Var v) increment = written_fields st"
| "UpdateExprMap_abort st (Tuple n base_fields) increment =
     (case increment of
        Tuple n1 fields1 \<Rightarrow> UpdateExprMap_fields_abort st base_fields fields1
      | _ \<Rightarrow> written_fields st)"
| "UpdateExprMap_abort st (TupleGetItem n tuple index) increment =
     (case tuple of
        Var v \<Rightarrow>
          (case shape st v of
             ShapeTuple m shape_fields \<Rightarrow>
               (case init_tuple_adjoint v shape_fields st of
                  Inl e \<Rightarrow> written_fields st
                | Inr st1 \<Rightarrow> written_fields st1)
           | _ \<Rightarrow> written_fields st)
      | _ \<Rightarrow> written_fields st)"
| "UpdateExprMap_abort st base increment = written_fields st"
| "UpdateExprMap_fields_abort st [] incs = written_fields st"
| "UpdateExprMap_fields_abort st (b # bs) [] = written_fields st"
| "UpdateExprMap_fields_abort st (b # bs) (i # incs) =
     (case UpdateExprMap st b i of
        Inl e \<Rightarrow> UpdateExprMap_abort st b i
      | Inr st' \<Rightarrow> UpdateExprMap_fields_abort st' bs incs)"

fun update_args_abort :: "ad_state \<Rightarrow> expr list \<Rightarrow> expr list \<Rightarrow> written" where
  "update_args_abort st args [] = written_fields st"
| "update_args_abort st [] (p # partials) = written_fields st"
| "update_args_abort st (a # args) (p # partials) =
     (case a of
        Var arg \<Rightarrow>
          (case UpdateExprMap st (Var arg) p of
             Inl e \<Rightarrow> UpdateExprMap_abort st (Var arg) p
           | Inr st' \<Rightarrow> update_args_abort st' args partials)
      | _ \<Rightarrow> written_fields st)"

definition back_propagate_abort ::
  "externals \<Rightarrow> var \<Rightarrow> expr \<Rightarrow> expr \<Rightarrow> ad_state \<Rightarrow> written"
where
  "back_propagate_abort ext adjoint_var val adjoint_expr st =
     (case val of
        Tuple n fs \<Rightarrow> UpdateExprMap_abort st (Tuple n fs) adjoint_expr
      | TupleGetItem n t k \<Rightarrow> UpdateExprMap_abort st (TupleGetItem n t k) adjoint_expr
      | Var y \<Rightarrow> UpdateExprMap_abort st (Var y) adjoint_expr
      | Call n f args a \<Rightarrow>
          (case call_gradient ext f (Call n f args a) adjoint_var st of
             Inl e \<Rightarrow> written_fields st
           | Inr (partials, st') \<Rightarrow>
               if length partials \<noteq> length args then written_fields st'
               else update_args_abort st' args partials)
      | _ \<Rightarrow> written_fields st)"

definition ReverseVisit_abort :: "externals \<Rightarrow> var \<Rightarrow> expr \<Rightarrow> ad_state \<Rightarrow> written" where
  "ReverseVisit_abort ext binding_var binding_value st =
     (case CreateAdjointVar binding_var True st of
        Inl e \<Rightarrow> written_fields st
      | Inr st1 \<Rightarrow>
          (case map_at (adjoint_var_map st1) (v_node binding_var) of
             Inl e \<Rightarrow> written_fields st1
           | Inr adjoint_var \<Rightarrow>
               (case seed_or_skip adjoint_var binding_var st1 of
                  Inl e \<Rightarrow> written_fields st1
                | Inr None \<Rightarrow> written_fields st1
                | Inr (Some st2) \<Rightarrow>
                    (case map_at (adjoint_expr_map st2) (v_node binding_var) of
                       Inl e \<Rightarrow> written_fields st2
                     | Inr adjoint_expr \<Rightarrow>
                         (case BindAndEmit adjoint_var adjoint_expr st2 of
                            Inl e \<Rightarrow> written_fields st2
                          | Inr st3 \<Rightarrow>
                              back_propagate_abort ext adjoint_var binding_value
                                adjoint_expr st3)))))"

definition reverse_step_abort :: "externals \<Rightarrow> binding \<Rightarrow> ad_state \<Rightarrow> written" where
  "reverse_step_abort ext b st =
     (case b of
        VarBinding v e \<Rightarrow> ReverseVisit_abort ext v e st
      | MatchShape e pattern v \<Rightarrow> written_fields st)"

fun reverse_loop_abort :: "externals \<Rightarrow> binding list \<Rightarrow> ad_state \<Rightarrow> written" where
  "reverse_loop_abort ext [] st = written_fields st"
| "reverse_loop_abort ext (b # bs) st =
     (case reverse_step ext b st of
        Inl e \<Rightarrow> reverse_step_abort ext b st
      | Inr st' \<Rightarrow> reverse_loop_abort ext bs st')"

text \<open>In the loop "emit the input adjoints" the read of \<^verbatim>\<open>adjoint_var->checked_type()\<close>
  comes after \<^verbatim>\<open>BindAndEmit\<close> has written.\<close>

definition emit_input_adjoint_abort :: "var \<Rightarrow> ad_state \<Rightarrow> written" where
  "emit_input_adjoint_abort new_param st =
     (case map_at (adjoint_var_map st) (v_node new_param) of
        Inl e \<Rightarrow> written_fields st
      | Inr adjoint_var \<Rightarrow>
          (case (case adjoint_expr_map st (v_node new_param) of
                   Some adjoint_expr \<Rightarrow> BindAndEmit adjoint_var adjoint_expr st
                 | None \<Rightarrow>
                     bind_err (dyn_tensor_dtype st new_param) (\<lambda>dtype.
                       BindAndEmit adjoint_var
                         (zeros_call (next_node st) (shape st new_param) dtype) (fresh st))) of
             Inl e \<Rightarrow> written_fields st
           | Inr st' \<Rightarrow> written_fields st'))"

fun emit_input_adjoints_abort :: "var list \<Rightarrow> var list \<Rightarrow> var list \<Rightarrow> ad_state \<Rightarrow> written"
where
  "emit_input_adjoints_abort require_grads (param # ps) (new_param # nps) st =
     (if requires_grad require_grads param then
        (case emit_input_adjoint new_param st of
           Inl e \<Rightarrow> emit_input_adjoint_abort new_param st
         | Inr (adjoint_var, t, st') \<Rightarrow> emit_input_adjoints_abort require_grads ps nps st')
      else emit_input_adjoints_abort require_grads ps nps st)"
| "emit_input_adjoints_abort require_grads ps nps st = written_fields st"

definition differentiate_abort ::
  "externals \<Rightarrow> var list \<Rightarrow> func \<Rightarrow> var list \<Rightarrow> binding list \<Rightarrow> expr \<Rightarrow> ad_state \<Rightarrow> written"
where
  "differentiate_abort ext require_grads f new_params bindings seq_body st =
     (case create_input_adjoints require_grads (params f) new_params st of
        Inl e \<Rightarrow> written_fields st
      | Inr st1 \<Rightarrow>
          (case seq_body of
             Var target \<Rightarrow>
               (case CheckTarget st1 target of
                  Inl e \<Rightarrow> written_fields st1
                | Inr u \<Rightarrow>
                    (case reverse_loop ext (rev bindings) (st1\<lparr>target_var := Some target\<rparr>) of
                       Inl e \<Rightarrow>
                         reverse_loop_abort ext (rev bindings) (st1\<lparr>target_var := Some target\<rparr>)
                     | Inr st3 \<Rightarrow>
                         emit_input_adjoints_abort require_grads (params f) new_params st3))
           | _ \<Rightarrow> written_fields st1))"

definition FuncTransform_abort :: "externals \<Rightarrow> var list \<Rightarrow> func \<Rightarrow> ad_state \<Rightarrow> written" where
  "FuncTransform_abort ext require_grads f st =
     (case body f of
        NonSeq e \<Rightarrow> written_fields st
      | SeqExpr blocks seq_body \<Rightarrow>
          (case clone_params (params f) Map.empty st of
             (new_params, var_remap, st1) \<Rightarrow>
               (case map (remap_block var_remap) blocks of
                  [DataflowBlock bindings] \<Rightarrow>
                    differentiate_abort ext require_grads f new_params bindings
                      (remap_expr var_remap seq_body)
                      (st1\<lparr>builder := map Reemit bindings\<rparr>)
                | _ \<Rightarrow> written_fields st1)))"


section \<open>Concrete programs\<close>

text \<open>
  Small programs on which the pass is run below. \<open>S\<close> is a scalar tensor of
  \<open>float32\<close>, \<open>T\<close> a tensor of shape \<open>(5, 5)\<close>. Identities below \<open>50\<close> belong to
  the input; the pass allocates from \<open>50\<close> on.
\<close>

definition scalar_f32 :: ty where
  "scalar_f32 = DynTensorType 0 ''float32''"

definition matrix_f32 :: ty where
  "matrix_f32 = DynTensorType 2 ''float32''"

definition ex_x :: var where
  "ex_x = \<lparr>v_node = 1, vid = 1, name_hint = ''x'', is_dataflow = False,
           v_shape = ShapeExpr 11 [], v_type = Some scalar_f32, span = Some 101\<rparr>"

definition ex_y :: var where
  "ex_y = \<lparr>v_node = 2, vid = 2, name_hint = ''y'', is_dataflow = False,
           v_shape = ShapeExpr 12 [], v_type = Some scalar_f32, span = Some 102\<rparr>"

definition ex_lv :: var where
  "ex_lv = \<lparr>v_node = 3, vid = 3, name_hint = ''lv'', is_dataflow = False,
            v_shape = ShapeExpr 13 [], v_type = Some scalar_f32, span = None\<rparr>"

text \<open>\<^verbatim>\<open>main(x: S, y: S): with dataflow: lv = x; output(lv); return lv\<close>\<close>

definition ex_alias :: func where
  "ex_alias =
     \<lparr>params = [ex_x, ex_y],
      body = SeqExpr [DataflowBlock [VarBinding ex_lv (Var ex_x)]] (Var ex_lv),
      ret_type = scalar_f32, ret_shape = ShapeExpr 14 [], func_attrs = Map.empty\<rparr>"

text \<open>A registry with the gradient of \<^verbatim>\<open>relax.sum\<close> only:
  \<^verbatim>\<open>multiply(out_adjoint, ones_like(arg))\<close>. \<open>Normalize\<close> leaves the body as it is.\<close>

definition sum_gradient :: "expr \<Rightarrow> var \<Rightarrow> nat \<Rightarrow> (expr list \<times> nat) option" where
  "sum_gradient call out_adjoint n =
     (case call of
        Call k f [arg] a \<Rightarrow>
          Some ([Call (Suc n) (Op ''relax.multiply'')
                   [Var out_adjoint, Call n (Op ''relax.ones_like'') [arg] NoAttrs] NoAttrs],
                n + 2)
      | _ \<Rightarrow> None)"

definition ex_ext :: externals where
  "ex_ext =
     \<lparr>gradient_op_map = (\<lambda>name. if name = ''relax.sum'' then Some sum_gradient else None),
      Normalize = (\<lambda>b. b)\<rparr>"

definition ex_a :: var where
  "ex_a = \<lparr>v_node = 4, vid = 4, name_hint = ''a'', is_dataflow = False,
           v_shape = ShapeExpr 15 [IntImm 5, IntImm 5], v_type = Some matrix_f32,
           span = None\<rparr>"

definition ex_b :: var where
  "ex_b = \<lparr>v_node = 5, vid = 5, name_hint = ''b'', is_dataflow = False,
           v_shape = ShapeExpr 16 [IntImm 5, IntImm 5], v_type = Some matrix_f32,
           span = None\<rparr>"

text \<open>\<^verbatim>\<open>main(a: T, b: T): with dataflow: lv = sum(a); output(lv); return lv\<close>\<close>

definition ex_sum :: func where
  "ex_sum =
     \<lparr>params = [ex_a, ex_b],
      body = SeqExpr
        [DataflowBlock [VarBinding ex_lv (Call 6 (Op ''relax.sum'') [Var ex_a] NoAttrs)]]
        (Var ex_lv),
      ret_type = scalar_f32, ret_shape = ShapeExpr 14 [], func_attrs = Map.empty\<rparr>"

definition pair_type :: ty where
  "pair_type = TupleType [scalar_f32, scalar_f32]"

definition pair_shape :: shape where
  "pair_shape = ShapeTuple 17 [ShapeExpr 18 [], ShapeExpr 19 []]"

definition ex_p :: var where
  "ex_p = \<lparr>v_node = 7, vid = 7, name_hint = ''p'', is_dataflow = False,
           v_shape = pair_shape, v_type = Some pair_type, span = None\<rparr>"

text \<open>\<^verbatim>\<open>main(p: Tuple(S, S), x: S): with dataflow: lv = x; output(lv); return lv\<close>\<close>

definition ex_unused_tuple :: func where
  "ex_unused_tuple =
     \<lparr>params = [ex_p, ex_x],
      body = SeqExpr [DataflowBlock [VarBinding ex_lv (Var ex_x)]] (Var ex_lv),
      ret_type = scalar_f32, ret_shape = ShapeExpr 14 [], func_attrs = Map.empty\<rparr>"

definition ex_t :: var where
  "ex_t = \<lparr>v_node = 8, vid = 8, name_hint = ''t'', is_dataflow = True,
           v_shape = pair_shape, v_type = Some pair_type, span = None\<rparr>"

definition ex_s :: var where
  "ex_s = \<lparr>v_node = 9, vid = 9, name_hint = ''s'', is_dataflow = True,
           v_shape = pair_shape, v_type = Some pair_type, span = None\<rparr>"

text \<open>\<^verbatim>\<open>main(x: S, y: S): with dataflow: t = (x, y); s = t; lv = s[0]; output(lv); return lv\<close>\<close>

definition ex_tuple_alias :: func where
  "ex_tuple_alias =
     \<lparr>params = [ex_x, ex_y],
      body = SeqExpr
        [DataflowBlock
           [VarBinding ex_t (Tuple 20 [Var ex_x, Var ex_y]),
            VarBinding ex_s (Var ex_t),
            VarBinding ex_lv (TupleGetItem 21 (Var ex_s) 0)]]
        (Var ex_lv),
      ret_type = scalar_f32, ret_shape = ShapeExpr 14 [], func_attrs = Map.empty\<rparr>"

text \<open>Readers of a result, for statements about concrete runs.\<close>

definition result_error :: "error + 'a \<Rightarrow> error option" where
  "result_error r = (case r of Inl e \<Rightarrow> Some e | Inr x \<Rightarrow> None)"

definition result_of :: "error + 'a \<Rightarrow> 'a option" where
  "result_of r = (case r of Inl e \<Rightarrow> None | Inr x \<Rightarrow> Some x)"

text \<open>The adjoint variables and the seed of a run on \<open>ex_alias\<close>, and a state in
  which the seed is already bound to \<open>lv_adjoint\<close> and node \<open>40\<close> is a tracked zero.\<close>

definition ex_lv_adjoint :: var where
  "ex_lv_adjoint = \<lparr>v_node = 54, vid = 54, name_hint = ''lv_adjoint'', is_dataflow = True,
                    v_shape = ShapeExpr 13 [], v_type = Some scalar_f32, span = None\<rparr>"

definition ex_x_adjoint :: var where
  "ex_x_adjoint = \<lparr>v_node = 52, vid = 52, name_hint = ''x_adjoint'', is_dataflow = False,
                   v_shape = ShapeExpr 11 [], v_type = Some scalar_f32, span = None\<rparr>"

definition ex_seed :: expr where
  "ex_seed = ones_call 55 (ShapeExpr 13 []) ''float32''"

definition ex_zero :: expr where
  "ex_zero = zeros_call 40 (ShapeExpr 13 []) ''float32''"

definition ex_interned :: ad_state where
  "ex_interned =
     (init_state 56)\<lparr>adjoint_binding := [55 \<mapsto> ex_lv_adjoint], zeros_tracker := {40}\<rparr>"

definition final_adjoint_var :: "error + (func \<times> ad_state) \<Rightarrow> var \<Rightarrow> var option" where
  "final_adjoint_var r x =
     (case r of Inl e \<Rightarrow> None | Inr (f, st) \<Rightarrow> adjoint_var_map st (v_node x))"

definition adjoint_expr_of :: "error + ad_state \<Rightarrow> var \<Rightarrow> expr option" where
  "adjoint_expr_of r x = (case r of Inl e \<Rightarrow> None | Inr st \<Rightarrow> adjoint_expr_map st (v_node x))"

definition emitted_bindings :: "error + (func \<times> ad_state) \<Rightarrow> emitted list option" where
  "emitted_bindings r = (case r of Inl e \<Rightarrow> None | Inr (f, st) \<Rightarrow> Some (builder st))"

definition ex_module :: irmodule where
  "ex_module =
     [''alias'' \<mapsto> RelaxFunction ex_alias, ''sum'' \<mapsto> RelaxFunction ex_sum,
      ''unused_tuple'' \<mapsto> RelaxFunction ex_unused_tuple,
      ''tuple_alias'' \<mapsto> RelaxFunction ex_tuple_alias, ''prim'' \<mapsto> PrimFunc 0]"

text \<open>The names of the variables in the second component of the returned pair.\<close>

fun var_name :: "expr \<Rightarrow> string" where
  "var_name (Var v) = name_hint v"
| "var_name e = []"

definition returned_adjoint_names :: "error + (func \<times> ad_state) \<Rightarrow> string list option" where
  "returned_adjoint_names r =
     (case r of
        Inl e \<Rightarrow> None
      | Inr (f, st) \<Rightarrow>
          (case body f of
             SeqExpr blocks (Tuple n [ret, Tuple m adjs]) \<Rightarrow> Some (map var_name adjs)
           | _ \<Rightarrow> None))"

text \<open>Functions that violate a precondition of the pass: two dataflow blocks; a
  terminator that is a tuple; a target that is a matrix.\<close>

definition ex_two_blocks :: func where
  "ex_two_blocks =
     \<lparr>params = [ex_x, ex_y],
      body = SeqExpr [DataflowBlock [VarBinding ex_lv (Var ex_x)], DataflowBlock []] (Var ex_lv),
      ret_type = scalar_f32, ret_shape = ShapeExpr 14 [], func_attrs = Map.empty\<rparr>"

definition ex_returns_tuple :: func where
  "ex_returns_tuple =
     \<lparr>params = [ex_x, ex_y],
      body = SeqExpr [DataflowBlock [VarBinding ex_lv (Var ex_x)]] (Tuple 22 [Var ex_lv]),
      ret_type = TupleType [scalar_f32], ret_shape = ShapeTuple 23 [ShapeExpr 14 []],
      func_attrs = Map.empty\<rparr>"

definition ex_lm :: var where
  "ex_lm = \<lparr>v_node = 10, vid = 10, name_hint = ''lm'', is_dataflow = False,
            v_shape = ShapeExpr 24 [IntImm 5, IntImm 5], v_type = Some matrix_f32,
            span = None\<rparr>"

definition ex_matrix_target :: func where
  "ex_matrix_target =
     \<lparr>params = [ex_a, ex_b],
      body = SeqExpr [DataflowBlock [VarBinding ex_lm (Var ex_a)]] (Var ex_lm),
      ret_type = matrix_f32, ret_shape = ShapeExpr 25 [IntImm 5, IntImm 5],
      func_attrs = Map.empty\<rparr>"

definition ex_bad_module :: irmodule where
  "ex_bad_module =
     [''alias'' \<mapsto> RelaxFunction ex_alias, ''two_blocks'' \<mapsto> RelaxFunction ex_two_blocks,
      ''returns_tuple'' \<mapsto> RelaxFunction ex_returns_tuple,
      ''matrix_target'' \<mapsto> RelaxFunction ex_matrix_target, ''prim'' \<mapsto> PrimFunc 0]"











section \<open>Relations between states, used in the proofs\<close>

text \<open>\<open>only_alloc st st'\<close>: nothing but the identity allocator has moved.\<close>

definition only_alloc :: "ad_state \<Rightarrow> ad_state \<Rightarrow> bool" where
  "only_alloc st st' \<longleftrightarrow>
     adjoint_var_map st' = adjoint_var_map st \<and> adjoint_expr_map st' = adjoint_expr_map st \<and>
     adjoint_binding st' = adjoint_binding st \<and> zeros_tracker st' = zeros_tracker st \<and>
     target_var st' = target_var st \<and> builder st' = builder st \<and>
     type_stamp st' = type_stamp st \<and> shape_stamp st' = shape_stamp st \<and>
     next_node st \<le> next_node st'"

text \<open>The second operand of the \<open>add\<close> call built by \<open>DoAdd\<close>.\<close>

definition intern_or_self :: "ad_state \<Rightarrow> expr \<Rightarrow> expr" where
  "intern_or_self st e = (case adjoint_binding st (node e) of Some u \<Rightarrow> Var u | None \<Rightarrow> e)"


text \<open>\<open>keeps_vars st st'\<close>: the table of adjoint variables and the target are the same.\<close>

definition keeps_vars :: "ad_state \<Rightarrow> ad_state \<Rightarrow> bool" where
  "keeps_vars st st' \<longleftrightarrow>
     adjoint_var_map st' = adjoint_var_map st \<and> target_var st' = target_var st"

text \<open>\<open>grows_dataflow st st'\<close>: every entry of the table of adjoint variables is kept,
  and every entry that is new in \<open>st'\<close> is an intermediate (dataflow) variable.\<close>

definition grows_dataflow :: "ad_state \<Rightarrow> ad_state \<Rightarrow> bool" where
  "grows_dataflow st st' \<longleftrightarrow>
     target_var st' = target_var st \<and>
     (\<forall>k. case adjoint_var_map st k of
            Some a \<Rightarrow> adjoint_var_map st' k = Some a
          | None \<Rightarrow> (case adjoint_var_map st' k of None \<Rightarrow> True | Some a \<Rightarrow> is_dataflow a))"

text \<open>The new parameter that \<open>clone_params\<close> makes of \<open>p\<close> at identity \<open>n\<close>.\<close>

definition clone_of :: "ad_state \<Rightarrow> nat \<Rightarrow> var \<Rightarrow> var" where
  "clone_of st n p =
     \<lparr>v_node = n, vid = vid p, name_hint = name_hint p, is_dataflow = False,
      v_shape = shape st p, v_type = checked_type_field st p, span = span p\<rparr>"

text \<open>\<open>only_vars_alloc st st'\<close>: only the table of adjoint variables and the allocator
  have changed.\<close>

definition only_vars_alloc :: "ad_state \<Rightarrow> ad_state \<Rightarrow> bool" where
  "only_vars_alloc st st' \<longleftrightarrow>
     adjoint_expr_map st' = adjoint_expr_map st \<and>
     adjoint_binding st' = adjoint_binding st \<and> zeros_tracker st' = zeros_tracker st \<and>
     target_var st' = target_var st \<and> builder st' = builder st \<and>
     type_stamp st' = type_stamp st \<and> shape_stamp st' = shape_stamp st \<and>
     next_node st \<le> next_node st'"

text \<open>The new parameters of the parameters that require a gradient, in parameter order.\<close>

definition selected :: "var list \<Rightarrow> var list \<Rightarrow> var list \<Rightarrow> var list" where
  "selected require_grads ps nps =
     map snd (filter (\<lambda>pr. requires_grad require_grads (fst pr)) (zip ps nps))"

text \<open>\<open>no_stamps st\<close>: no annotation of an existing node has been overwritten.\<close>

definition no_stamps :: "ad_state \<Rightarrow> bool" where
  "no_stamps st \<longleftrightarrow> type_stamp st = Map.empty \<and> shape_stamp st = Map.empty"

text \<open>The parameters that carry the identifier of \<open>t\<close> carry its annotations as well.\<close>

definition annotated_like_params :: "var \<Rightarrow> var list \<Rightarrow> bool" where
  "annotated_like_params t ps =
     list_all (\<lambda>p. vid p \<noteq> vid t \<or> (v_shape p = v_shape t \<and> v_type p = v_type t)) ps"





section \<open>Basic facts\<close>

lemma bind_err_Inr_iff:
  "bind_err m f = Inr y \<longleftrightarrow> (\<exists>x. m = Inr x \<and> f x = Inr y)"
  by (cases m) (simp_all add: bind_err_def)

lemma bind_err_Inl_iff:
  "bind_err m f = Inl e \<longleftrightarrow> m = Inl e \<or> (\<exists>x. m = Inr x \<and> f x = Inl e)"
  by (cases m) (simp_all add: bind_err_def)

declare DoAdd.simps [simp del]
declare BuildEmptyNestedTupleExpr.simps [simp del]


lemma result_error_Some: "result_error r = Some e \<longleftrightarrow> r = Inl e"
  by (cases r) (simp_all add: result_error_def)

lemma result_error_None: "result_error r = None \<longleftrightarrow> (\<exists>x. r = Inr x)"
  by (cases r) (simp_all add: result_error_def)

section \<open>Which bindings the reverse walk rejects\<close>

lemma DoAdd_not_unsupported:
  "DoAdd st a b \<noteq> Inl UnsupportedBindingValue"
  "DoAdd_fields st as bs \<noteq> Inl UnsupportedBindingValue"
proof (induction st a b and st as bs rule: DoAdd_DoAdd_fields.induct)
  case (1 st src1 src2)
  show ?case
  proof (cases src1)
    case (Tuple n1 fields1)
    with "1.IH" show ?thesis
      by (auto simp: DoAdd.simps split: expr.splits if_splits sum.splits)
  qed (auto simp: DoAdd.simps split: option.splits)
next
  case (4 st f1 fs1 f2 fs2)
  then show ?case
    by (auto split: sum.splits prod.splits)
qed simp_all

lemma DoAddInTuple_fields_not_unsupported:
  "DoAddInTuple_fields st fs i k inc \<noteq> Inl UnsupportedBindingValue"
  by (induction st fs i k inc rule: DoAddInTuple_fields.induct)
     (auto split: sum.splits prod.splits simp: DoAdd_not_unsupported)

lemma DoAddInTuple_not_unsupported:
  "DoAddInTuple st fs k inc \<noteq> Inl UnsupportedBindingValue"
  by (auto simp: DoAddInTuple_def DoAddInTuple_fields_not_unsupported split: sum.splits)

lemma BuildEmpty_not_unsupported:
  "BuildEmptyNestedTupleExpr st ss ts \<noteq> Inl UnsupportedBindingValue"
  "BuildEmpty_fields st ss ts \<noteq> Inl UnsupportedBindingValue"
  by (induction st ss ts and st ss ts
        rule: BuildEmptyNestedTupleExpr_BuildEmpty_fields.induct)
     (auto simp: BuildEmptyNestedTupleExpr.simps split: sum.splits prod.splits list.splits ty.splits)

lemma init_tuple_adjoint_not_unsupported:
  "init_tuple_adjoint v ss st \<noteq> Inl UnsupportedBindingValue"
  by (auto simp: init_tuple_adjoint_def checked_type_def BuildEmpty_not_unsupported
           split: sum.splits ty.splits option.splits)

lemma UpdateExprMap_not_unsupported:
  "UpdateExprMap st base inc \<noteq> Inl UnsupportedBindingValue"
  "UpdateExprMap_fields st bs incs \<noteq> Inl UnsupportedBindingValue"
  by (induction st base inc and st bs incs rule: UpdateExprMap_UpdateExprMap_fields.induct)
     (auto simp: DoAdd_not_unsupported DoAddInTuple_not_unsupported
                 init_tuple_adjoint_not_unsupported
           split: sum.splits option.splits expr.splits shape.splits)

lemma update_args_not_unsupported:
  "update_args st args ps \<noteq> Inl UnsupportedBindingValue"
  by (induction st args ps rule: update_args.induct)
     (auto simp: UpdateExprMap_not_unsupported simp del: UpdateExprMap.simps
           split: sum.splits expr.splits)

lemma call_gradient_not_unsupported:
  "call_gradient ext f c a st \<noteq> Inl UnsupportedBindingValue"
  by (auto simp: call_gradient_def split: callee.splits option.splits)

lemma back_propagate_unsupported:
  "back_propagate ext a val ae st = Inl UnsupportedBindingValue \<Longrightarrow>
     (\<exists>s. val = Shape s) \<or> (\<exists>n. val = Constant n)"
  by (cases val)
     (auto simp: back_propagate_def bind_err_Inl_iff UpdateExprMap_not_unsupported
                 call_gradient_not_unsupported update_args_not_unsupported
           simp del: UpdateExprMap.simps split: if_splits)

lemma CreateAdjointVar_not_unsupported:
  "CreateAdjointVar v d st \<noteq> Inl UnsupportedBindingValue"
  by (auto simp: CreateAdjointVar_def checked_type_def split: option.splits)

lemma map_at_not_unsupported: "map_at m k \<noteq> Inl UnsupportedBindingValue"
  by (auto simp: map_at_def split: option.splits)

lemma InitGrad_not_unsupported: "InitGrad a v st \<noteq> Inl UnsupportedBindingValue"
  by (auto simp: InitGrad_def dyn_tensor_dtype_def bind_err_def split: option.splits ty.splits)

lemma seed_or_skip_not_unsupported: "seed_or_skip a v st \<noteq> Inl UnsupportedBindingValue"
  by (auto simp: seed_or_skip_def bind_err_Inl_iff InitGrad_not_unsupported)

lemma BindAndEmit_not_unsupported: "BindAndEmit v e st \<noteq> Inl UnsupportedBindingValue"
  by (auto simp: BindAndEmit_def checked_type_def split: option.splits)

lemma ReverseVisit_unsupported:
  assumes "ReverseVisit ext x val st = Inl UnsupportedBindingValue"
  shows "(\<exists>s. val = Shape s) \<or> (\<exists>n. val = Constant n)"
proof -
  from assms obtain a ae st3 where "back_propagate ext a val ae st3 = Inl UnsupportedBindingValue"
    by (auto simp: ReverseVisit_def bind_err_Inl_iff CreateAdjointVar_not_unsupported
                   map_at_not_unsupported seed_or_skip_not_unsupported
                   BindAndEmit_not_unsupported
             split: option.splits)
  then show ?thesis by (rule back_propagate_unsupported)
qed

text \<open>
  Claim C10. In the reverse walk a forward binding that is not a variable binding (a
  match-shape binding) is skipped: the state is unchanged, so there is no adjoint variable,
  no propagation and no error. The error "AD does not support this type of binding value"
  arises only for a variable binding whose right-hand side is neither a tuple, a tuple
  projection, a variable nor a call.
\<close>

theorem reverse_walk_skips_non_var_bindings:
  "reverse_step ext (MatchShape e pattern v) st = Inr st \<and>
   reverse_loop ext (MatchShape e pattern v # bs) st = reverse_loop ext bs st \<and>
   (reverse_step ext b st = Inl UnsupportedBindingValue \<longrightarrow>
      (\<exists>x val. b = VarBinding x val \<and> \<not> is_Tuple val \<and> \<not> is_TupleGetItem val \<and>
                \<not> is_Var val \<and> \<not> is_Call val))"
proof -
  have "reverse_step ext b st = Inl UnsupportedBindingValue \<Longrightarrow>
      (\<exists>x val. b = VarBinding x val \<and> \<not> is_Tuple val \<and> \<not> is_TupleGetItem val \<and>
                \<not> is_Var val \<and> \<not> is_Call val)"
    by (cases b) (auto simp: reverse_step_def dest!: ReverseVisit_unsupported)
  then show ?thesis by (auto simp: reverse_step_def)
qed

theorem reverse_walk_skips_non_var_bindings_witness:
  "reverse_step ex_ext (VarBinding ex_lv (Constant 30))
      ((init_state 50)\<lparr>target_var := Some ex_lv\<rparr>) = Inl UnsupportedBindingValue \<and>
   (\<exists>x val. VarBinding ex_lv (Constant 30) = VarBinding x val \<and> \<not> is_Tuple val \<and>
      \<not> is_TupleGetItem val \<and> \<not> is_Var val \<and> \<not> is_Call val)"
proof -
  have "result_error (reverse_step ex_ext (VarBinding ex_lv (Constant 30))
      ((init_state 50)\<lparr>target_var := Some ex_lv\<rparr>)) = Some UnsupportedBindingValue"
    by code_simp
  then have run: "reverse_step ex_ext (VarBinding ex_lv (Constant 30))
      ((init_state 50)\<lparr>target_var := Some ex_lv\<rparr>) = Inl UnsupportedBindingValue"
    by (simp only: result_error_Some)
  from reverse_walk_skips_non_var_bindings
         [of ex_ext "Constant 30" "[]" ex_lv "(init_state 50)\<lparr>target_var := Some ex_lv\<rparr>" "[]"
             "VarBinding ex_lv (Constant 30)"]
       run
  show ?thesis by blast
qed


section \<open>Emission\<close>

text \<open>
  Claim C2, as amended. When the intern table already maps \<open>e\<close> to a variable \<open>u\<close>,
  \<open>BindAndEmit v e\<close> emits exactly one binding, \<open>v := u\<close> (a dataflow binding if \<open>v\<close>
  is intermediate, an output binding otherwise), and changes nothing else: the intern
  table and the stamps stay as they are.
\<close>

theorem BindAndEmit_interned_emits_alias:
  assumes "adjoint_binding st (node e) = Some u"
  shows "BindAndEmit v e st =
           Inr (st\<lparr>builder := builder st @
                  [if is_dataflow v then Emit (VarBinding v (Var u))
                   else EmitOutput (VarBinding v (Var u))]\<rparr>)"
  using assms by (simp add: BindAndEmit_def emit_binding_def)

theorem BindAndEmit_interned_emits_alias_witness:
  "adjoint_binding ex_interned (node ex_seed) = Some ex_lv_adjoint \<and>
   BindAndEmit ex_x_adjoint ex_seed ex_interned =
     Inr (ex_interned\<lparr>builder := [EmitOutput (VarBinding ex_x_adjoint (Var ex_lv_adjoint))]\<rparr>)"
proof -
  have h: "adjoint_binding ex_interned (node ex_seed) = Some ex_lv_adjoint"
    by (simp add: ex_interned_def ex_seed_def ones_call_def init_state_def)
  from BindAndEmit_interned_emits_alias [OF h, of ex_x_adjoint] h show ?thesis
    by (simp add: ex_x_adjoint_def ex_interned_def init_state_def)
qed

text \<open>The claim as stated fails: a binding is emitted.\<close>

theorem BindAndEmit_interned_counterexample:
  "adjoint_binding ex_interned (node ex_seed) = Some ex_lv_adjoint \<and>
   builder ex_interned = [] \<and>
   map_option builder (result_of (BindAndEmit ex_x_adjoint ex_seed ex_interned)) =
     Some [EmitOutput (VarBinding ex_x_adjoint (Var ex_lv_adjoint))]"
  by (simp add: BindAndEmit_def emit_binding_def result_of_def ex_interned_def ex_seed_def
        ones_call_def init_state_def ex_x_adjoint_def)


section \<open>Addition with zero elimination\<close>

lemma only_alloc_refl [simp]: "only_alloc st st"
  by (simp add: only_alloc_def)

lemma only_alloc_fresh: "only_alloc st st' \<Longrightarrow> only_alloc st (fresh st')"
  by (simp add: only_alloc_def fresh_def)

lemma only_alloc_trans: "only_alloc a b \<Longrightarrow> only_alloc b c \<Longrightarrow> only_alloc a c"
  by (simp add: only_alloc_def)

lemma DoAdd_frame:
  "DoAdd st a b = Inr (r, st') \<Longrightarrow> only_alloc st st'"
  "DoAdd_fields st as bs = Inr (rs, st') \<Longrightarrow> only_alloc st st'"
proof (induction st a b and st as bs arbitrary: r st' and rs st' rule: DoAdd_DoAdd_fields.induct)
  case (1 st src1 src2)
  show ?case
  proof (cases "node src1 \<in> zeros_tracker st \<or> node src2 \<in> zeros_tracker st")
    case True
    with "1.prems" show ?thesis
      by (auto simp: DoAdd.simps split: if_splits)
  next
    case False
    show ?thesis
    proof (cases src1)
      case (Tuple n1 fields1)
      with False "1.prems" "1.IH" show ?thesis
        by (auto simp: DoAdd.simps split: expr.splits if_splits sum.splits
                 intro: only_alloc_fresh)
    qed (use False "1.prems" in
          \<open>auto simp: DoAdd.simps split: option.splits intro: only_alloc_fresh\<close>)
  qed
next
  case (4 st f1 fs1 f2 fs2)
  then show ?case
    by (auto split: sum.splits prod.splits intro: only_alloc_trans)
qed simp_all

lemma DoAdd_fields_pairwise:
  "DoAdd_fields st fs1 fs2 = Inr (rs, st') \<Longrightarrow>
     length rs = length fs1 \<and>
     (\<forall>i<length fs1. \<exists>sti sti'. only_alloc st sti \<and>
         DoAdd sti (fs1 ! i) (fs2 ! i) = Inr (rs ! i, sti'))"
proof (induction fs1 arbitrary: st fs2 rs st')
  case Nil
  then show ?case by simp
next
  case (Cons f1 fs1)
  from Cons.prems obtain f2 fs2' where fs2: "fs2 = f2 # fs2'"
    by (cases fs2) auto
  from Cons.prems fs2 obtain r st1 rs' where
    hd: "DoAdd st f1 f2 = Inr (r, st1)" and
    tl: "DoAdd_fields st1 fs1 fs2' = Inr (rs', st')" and
    rs: "rs = r # rs'"
    by (auto split: sum.splits prod.splits)
  from Cons.IH [OF tl] have len: "length rs' = length fs1" and
    ih: "\<And>i. i < length fs1 \<Longrightarrow> \<exists>sti sti'. only_alloc st1 sti \<and>
           DoAdd sti (fs1 ! i) (fs2' ! i) = Inr (rs' ! i, sti')"
    by auto
  have step: "only_alloc st st1" using hd by (rule DoAdd_frame)
  show ?case
  proof (intro conjI allI impI)
    show "length rs = length (f1 # fs1)" using len rs by simp
  next
    fix i assume i: "i < length (f1 # fs1)"
    show "\<exists>sti sti'. only_alloc st sti \<and>
            DoAdd sti ((f1 # fs1) ! i) (fs2 ! i) = Inr (rs ! i, sti')"
    proof (cases i)
      case 0
      with hd fs2 rs have
        "only_alloc st st \<and> DoAdd st ((f1 # fs1) ! i) (fs2 ! i) = Inr (rs ! i, st1)"
        by simp
      then show ?thesis by blast
    next
      case (Suc j)
      with i have "j < length fs1" by simp
      from ih [OF this] obtain sti sti' where
        "only_alloc st1 sti" "DoAdd sti (fs1 ! j) (fs2' ! j) = Inr (rs' ! j, sti')"
        by blast
      with step Suc fs2 rs have
        "only_alloc st sti \<and> DoAdd sti ((f1 # fs1) ! i) (fs2 ! i) = Inr (rs ! i, sti')"
        by (auto intro: only_alloc_trans)
      then show ?thesis by blast
    qed
  qed
qed

lemma DoAdd_fields_chain:
  "length fs1 = length fs2 \<Longrightarrow>
   DoAdd_fields st fs1 fs2 = Inr (rs, st') \<longleftrightarrow>
     (\<exists>sts. length rs = length fs1 \<and> length sts = Suc (length fs1) \<and> sts ! 0 = st \<and>
        last sts = st' \<and>
        (\<forall>i<length fs1. DoAdd (sts ! i) (fs1 ! i) (fs2 ! i) = Inr (rs ! i, sts ! Suc i)))"
proof (induction fs1 fs2 arbitrary: st rs rule: list_induct2)
  case Nil
  show ?case
  proof
    assume "DoAdd_fields st [] [] = Inr (rs, st')"
    then have "rs = []" "st' = st" by simp_all
    then have "length rs = length ([]::expr list) \<and> length [st] = Suc (length ([]::expr list)) \<and>
        [st] ! 0 = st \<and> last [st] = st' \<and>
        (\<forall>i<length ([]::expr list). DoAdd ([st] ! i) ([] ! i) ([] ! i) = Inr (rs ! i, [st] ! Suc i))"
      by simp
    then show "\<exists>sts. length rs = length ([]::expr list) \<and> length sts = Suc (length ([]::expr list)) \<and>
        sts ! 0 = st \<and> last sts = st' \<and>
        (\<forall>i<length ([]::expr list). DoAdd (sts ! i) ([] ! i) ([] ! i) = Inr (rs ! i, sts ! Suc i))"
      by blast
  next
    assume "\<exists>sts. length rs = length ([]::expr list) \<and> length sts = Suc (length ([]::expr list)) \<and>
        sts ! 0 = st \<and> last sts = st' \<and>
        (\<forall>i<length ([]::expr list). DoAdd (sts ! i) ([] ! i) ([] ! i) = Inr (rs ! i, sts ! Suc i))"
    then obtain sts where "rs = []" "length sts = Suc 0" "sts ! 0 = st" "last sts = st'"
      by auto
    then have "rs = []" "st' = st"
      by (cases sts; simp)+
    then show "DoAdd_fields st [] [] = Inr (rs, st')" by simp
  qed
next
  case (Cons f1 fs1 f2 fs2)
  show ?case
  proof
    assume "DoAdd_fields st (f1 # fs1) (f2 # fs2) = Inr (rs, st')"
    then obtain r st1 rs' where
      hd: "DoAdd st f1 f2 = Inr (r, st1)" and
      tl: "DoAdd_fields st1 fs1 fs2 = Inr (rs', st')" and
      rs: "rs = r # rs'"
      by (auto split: sum.splits prod.splits)
    from tl Cons.IH [of st1 rs'] obtain sts' where
      s: "length rs' = length fs1" "length sts' = Suc (length fs1)" "sts' ! 0 = st1"
         "last sts' = st'"
         "\<And>i. i < length fs1 \<Longrightarrow>
             DoAdd (sts' ! i) (fs1 ! i) (fs2 ! i) = Inr (rs' ! i, sts' ! Suc i)"
      by auto
    have steps: "DoAdd ((st # sts') ! i) ((f1 # fs1) ! i) ((f2 # fs2) ! i) =
                   Inr (rs ! i, (st # sts') ! Suc i)" if "i < length (f1 # fs1)" for i
      using that hd s(3) s(5) rs by (cases i) simp_all
    from s(2) have "sts' \<noteq> []" by auto
    with s rs steps have
      "length rs = length (f1 # fs1) \<and> length (st # sts') = Suc (length (f1 # fs1)) \<and>
       (st # sts') ! 0 = st \<and> last (st # sts') = st' \<and>
       (\<forall>i<length (f1 # fs1). DoAdd ((st # sts') ! i) ((f1 # fs1) ! i) ((f2 # fs2) ! i) =
            Inr (rs ! i, (st # sts') ! Suc i))"
      by simp
    then show "\<exists>sts. length rs = length (f1 # fs1) \<and> length sts = Suc (length (f1 # fs1)) \<and>
        sts ! 0 = st \<and> last sts = st' \<and>
        (\<forall>i<length (f1 # fs1). DoAdd (sts ! i) ((f1 # fs1) ! i) ((f2 # fs2) ! i) =
            Inr (rs ! i, sts ! Suc i))"
      by blast
  next
    assume "\<exists>sts. length rs = length (f1 # fs1) \<and> length sts = Suc (length (f1 # fs1)) \<and>
        sts ! 0 = st \<and> last sts = st' \<and>
        (\<forall>i<length (f1 # fs1). DoAdd (sts ! i) ((f1 # fs1) ! i) ((f2 # fs2) ! i) =
            Inr (rs ! i, sts ! Suc i))"
    then obtain sts where
      s: "length rs = Suc (length fs1)" "length sts = Suc (Suc (length fs1))" "sts ! 0 = st"
         "last sts = st'" and
      steps: "\<And>i. i < Suc (length fs1) \<Longrightarrow>
          DoAdd (sts ! i) ((f1 # fs1) ! i) ((f2 # fs2) ! i) = Inr (rs ! i, sts ! Suc i)"
      by auto
    from s(1) obtain r rs' where rs: "rs = r # rs'" "length rs' = length fs1"
      by (cases rs) auto
    from s(2,3) obtain sts' where sts: "sts = st # sts'" "length sts' = Suc (length fs1)"
      by (cases sts) auto
    then have ne: "sts' \<noteq> []" by auto
    from steps [of 0] rs sts have hd: "DoAdd st f1 f2 = Inr (r, sts' ! 0)" by simp
    have "DoAdd (sts' ! i) (fs1 ! i) (fs2 ! i) = Inr (rs' ! i, sts' ! Suc i)"
      if "i < length fs1" for i
      using steps [of "Suc i"] that rs sts by simp
    moreover from s(4) sts ne have "last sts' = st'" by simp
    ultimately have "\<exists>sts. length rs' = length fs1 \<and> length sts = Suc (length fs1) \<and>
        sts ! 0 = sts' ! 0 \<and> last sts = st' \<and>
        (\<forall>i<length fs1. DoAdd (sts ! i) (fs1 ! i) (fs2 ! i) = Inr (rs' ! i, sts ! Suc i))"
      using rs(2) sts(2) by blast
    with Cons.IH [of "sts' ! 0" rs'] have "DoAdd_fields (sts' ! 0) fs1 fs2 = Inr (rs', st')"
      by simp
    with hd rs show "DoAdd_fields st (f1 # fs1) (f2 # fs2) = Inr (rs, st')" by simp
  qed
qed

text \<open>
  Claim C6, as amended. \<open>DoAdd s1 s2\<close> follows its rules in order. If \<open>s1\<close> is
  in the zero set (by identity) the result is \<open>s2\<close> unchanged; else if \<open>s2\<close> is in
  the zero set the result is \<open>s1\<close> unchanged. Else, if \<open>s1\<close> is a tuple literal,
  \<open>s2\<close> must be a tuple literal too (a fatal error otherwise) of the same arity (a fatal
  error otherwise); then the addition succeeds exactly when the fields can be added
  pairwise from left to right, each addition starting in the state the previous one
  left, and the result is then a new tuple, made after the fields, whose fields are the
  results of \<open>DoAdd\<close> on the fields pairwise, in order. Else (\<open>s1\<close> is not a tuple
  literal) the result is a new call \<open>add(s1, s2')\<close>, where \<open>s2'\<close> is the variable the
  intern table holds for \<open>s2\<close> if there is one and \<open>s2\<close> itself otherwise; \<open>s1\<close> is
  never replaced.
\<close>

theorem DoAdd_rules:
  "(node s1 \<in> zeros_tracker st \<longrightarrow> DoAdd st s1 s2 = Inr (s2, st)) \<and>
   (node s1 \<notin> zeros_tracker st \<and> node s2 \<in> zeros_tracker st \<longrightarrow>
      DoAdd st s1 s2 = Inr (s1, st)) \<and>
   (node s1 \<notin> zeros_tracker st \<and> node s2 \<notin> zeros_tracker st \<longrightarrow>
      (is_Tuple s1 \<and> \<not> is_Tuple s2 \<longrightarrow> DoAdd st s1 s2 = Inl TypeNotMatch) \<and>
      (\<forall>n1 fs1 n2 fs2. s1 = Tuple n1 fs1 \<and> s2 = Tuple n2 fs2 \<longrightarrow>
         (length fs1 \<noteq> length fs2 \<longrightarrow> DoAdd st s1 s2 = Inl SizeOfTupleNotMatch) \<and>
         (length fs1 = length fs2 \<longrightarrow>
            (\<forall>r st'. DoAdd st s1 s2 = Inr (r, st') \<longleftrightarrow>
               (\<exists>rs sts. length rs = length fs1 \<and> length sts = Suc (length fs1) \<and>
                  sts ! 0 = st \<and>
                  (\<forall>i<length fs1.
                      DoAdd (sts ! i) (fs1 ! i) (fs2 ! i) = Inr (rs ! i, sts ! Suc i)) \<and>
                  r = Tuple (next_node (last sts)) rs \<and> st' = fresh (last sts)))) \<and>
         (\<forall>r st'. DoAdd st s1 s2 = Inr (r, st') \<longrightarrow>
            (\<exists>n rs. r = Tuple n rs \<and> length rs = length fs1 \<and>
               (\<forall>i<length fs1. \<exists>sti sti'. only_alloc st sti \<and>
                   DoAdd sti (fs1 ! i) (fs2 ! i) = Inr (rs ! i, sti'))))) \<and>
      (\<not> is_Tuple s1 \<longrightarrow>
         DoAdd st s1 s2 = Inr (add_call (next_node st) s1 (intern_or_self st s2), fresh st)))"
proof (intro conjI impI allI)
  assume "node s1 \<in> zeros_tracker st"
  then show "DoAdd st s1 s2 = Inr (s2, st)" by (simp add: DoAdd.simps)
next
  assume "node s1 \<notin> zeros_tracker st \<and> node s2 \<in> zeros_tracker st"
  then show "DoAdd st s1 s2 = Inr (s1, st)" by (simp add: DoAdd.simps)
next
  assume "node s1 \<notin> zeros_tracker st \<and> node s2 \<notin> zeros_tracker st"
    and "is_Tuple s1 \<and> \<not> is_Tuple s2"
  then show "DoAdd st s1 s2 = Inl TypeNotMatch"
    by (cases s1; cases s2) (simp_all add: DoAdd.simps)
next
  fix n1 fs1 n2 fs2
  assume "node s1 \<notin> zeros_tracker st \<and> node s2 \<notin> zeros_tracker st"
    and "s1 = Tuple n1 fs1 \<and> s2 = Tuple n2 fs2" and "length fs1 \<noteq> length fs2"
  then show "DoAdd st s1 s2 = Inl SizeOfTupleNotMatch"
    by (simp add: DoAdd.simps)
next
  fix n1 fs1 n2 fs2 r st'
  assume nz: "node s1 \<notin> zeros_tracker st \<and> node s2 \<notin> zeros_tracker st"
    and t: "s1 = Tuple n1 fs1 \<and> s2 = Tuple n2 fs2" and len: "length fs1 = length fs2"
  from nz t len have unfold: "DoAdd st s1 s2 = Inr (r, st') \<longleftrightarrow>
      (\<exists>rs st1. DoAdd_fields st fs1 fs2 = Inr (rs, st1) \<and>
                r = Tuple (next_node st1) rs \<and> st' = fresh st1)"
    by (auto simp: DoAdd.simps split: sum.splits)
  show "DoAdd st s1 s2 = Inr (r, st') \<longleftrightarrow>
      (\<exists>rs sts. length rs = length fs1 \<and> length sts = Suc (length fs1) \<and> sts ! 0 = st \<and>
         (\<forall>i<length fs1. DoAdd (sts ! i) (fs1 ! i) (fs2 ! i) = Inr (rs ! i, sts ! Suc i)) \<and>
         r = Tuple (next_node (last sts)) rs \<and> st' = fresh (last sts))"
  proof
    assume "DoAdd st s1 s2 = Inr (r, st')"
    with unfold obtain rs st1 where
      fs: "DoAdd_fields st fs1 fs2 = Inr (rs, st1)" and
      r: "r = Tuple (next_node st1) rs" "st' = fresh st1"
      by blast
    from fs DoAdd_fields_chain [OF len, of st rs st1] obtain sts where
      "length rs = length fs1" "length sts = Suc (length fs1)" "sts ! 0 = st" "last sts = st1"
      "\<forall>i<length fs1. DoAdd (sts ! i) (fs1 ! i) (fs2 ! i) = Inr (rs ! i, sts ! Suc i)"
      by blast
    with r show "\<exists>rs sts. length rs = length fs1 \<and> length sts = Suc (length fs1) \<and>
         sts ! 0 = st \<and>
         (\<forall>i<length fs1. DoAdd (sts ! i) (fs1 ! i) (fs2 ! i) = Inr (rs ! i, sts ! Suc i)) \<and>
         r = Tuple (next_node (last sts)) rs \<and> st' = fresh (last sts)"
      by blast
  next
    assume "\<exists>rs sts. length rs = length fs1 \<and> length sts = Suc (length fs1) \<and>
         sts ! 0 = st \<and>
         (\<forall>i<length fs1. DoAdd (sts ! i) (fs1 ! i) (fs2 ! i) = Inr (rs ! i, sts ! Suc i)) \<and>
         r = Tuple (next_node (last sts)) rs \<and> st' = fresh (last sts)"
    then obtain rs sts where
      c: "length rs = length fs1" "length sts = Suc (length fs1)" "sts ! 0 = st"
         "\<forall>i<length fs1. DoAdd (sts ! i) (fs1 ! i) (fs2 ! i) = Inr (rs ! i, sts ! Suc i)" and
      r: "r = Tuple (next_node (last sts)) rs" "st' = fresh (last sts)"
      by blast
    from c have "DoAdd_fields st fs1 fs2 = Inr (rs, last sts)"
      using DoAdd_fields_chain [OF len, of st rs "last sts"] by blast
    with r unfold show "DoAdd st s1 s2 = Inr (r, st')" by blast
  qed
next
  fix n1 fs1 n2 fs2 r st'
  assume nz: "node s1 \<notin> zeros_tracker st \<and> node s2 \<notin> zeros_tracker st"
    and t: "s1 = Tuple n1 fs1 \<and> s2 = Tuple n2 fs2" and run: "DoAdd st s1 s2 = Inr (r, st')"
  from nz t run obtain rs st1 where
    fs: "DoAdd_fields st fs1 fs2 = Inr (rs, st1)" and r: "r = Tuple (next_node st1) rs"
    by (auto simp: DoAdd.simps split: if_splits sum.splits)
  from DoAdd_fields_pairwise [OF fs] r
  show "\<exists>n rs. r = Tuple n rs \<and> length rs = length fs1 \<and>
          (\<forall>i<length fs1. \<exists>sti sti'. only_alloc st sti \<and>
              DoAdd sti (fs1 ! i) (fs2 ! i) = Inr (rs ! i, sti'))"
    by blast
next
  assume "node s1 \<notin> zeros_tracker st \<and> node s2 \<notin> zeros_tracker st" and "\<not> is_Tuple s1"
  then show "DoAdd st s1 s2 =
      Inr (add_call (next_node st) s1 (intern_or_self st s2), fresh st)"
    by (cases s1) (auto simp: DoAdd.simps intern_or_self_def split: option.splits)
qed

theorem DoAdd_rules_witness:
  "DoAdd ex_interned ex_zero ex_seed = Inr (ex_seed, ex_interned) \<and>
   DoAdd ex_interned ex_seed ex_zero = Inr (ex_seed, ex_interned) \<and>
   DoAdd ex_interned (Tuple 41 [Constant 42]) (Constant 43) = Inl TypeNotMatch \<and>
   DoAdd ex_interned (Tuple 41 [Constant 42]) (Tuple 44 []) = Inl SizeOfTupleNotMatch \<and>
   DoAdd ex_interned (Var ex_x_adjoint) ex_seed =
     Inr (add_call 56 (Var ex_x_adjoint) (Var ex_lv_adjoint), fresh ex_interned) \<and>
   DoAdd ex_interned ex_seed (Var ex_x_adjoint) =
     Inr (add_call 56 ex_seed (Var ex_x_adjoint), fresh ex_interned) \<and>
   DoAdd ex_interned (Tuple 41 [Constant 42, Var ex_x_adjoint]) (Tuple 44 [ex_seed, ex_zero]) =
     Inr (Tuple 57 [add_call 56 (Constant 42) (Var ex_lv_adjoint), Var ex_x_adjoint],
          fresh (fresh ex_interned))"
proof -
  have rules:
    "DoAdd ex_interned ex_zero ex_seed = Inr (ex_seed, ex_interned) \<and>
     DoAdd ex_interned ex_seed ex_zero = Inr (ex_seed, ex_interned) \<and>
     DoAdd ex_interned (Tuple 41 [Constant 42]) (Constant 43) = Inl TypeNotMatch \<and>
     DoAdd ex_interned (Tuple 41 [Constant 42]) (Tuple 44 []) = Inl SizeOfTupleNotMatch \<and>
     DoAdd ex_interned (Var ex_x_adjoint) ex_seed =
       Inr (add_call 56 (Var ex_x_adjoint) (Var ex_lv_adjoint), fresh ex_interned) \<and>
     DoAdd ex_interned ex_seed (Var ex_x_adjoint) =
       Inr (add_call 56 ex_seed (Var ex_x_adjoint), fresh ex_interned)"
    using DoAdd_rules [of ex_zero ex_interned ex_seed]
          DoAdd_rules [of ex_seed ex_interned ex_zero]
          DoAdd_rules [of "Tuple 41 [Constant 42]" ex_interned "Constant 43"]
          DoAdd_rules [of "Tuple 41 [Constant 42]" ex_interned "Tuple 44 []"]
          DoAdd_rules [of "Var ex_x_adjoint" ex_interned ex_seed]
          DoAdd_rules [of ex_seed ex_interned "Var ex_x_adjoint"]
    by (simp add: ex_interned_def ex_zero_def ex_seed_def zeros_call_def ones_call_def
          init_state_def ex_x_adjoint_def intern_or_self_def)
  let ?fs1 = "[Constant 42, Var ex_x_adjoint]"
  let ?fs2 = "[ex_seed, ex_zero]"
  let ?rs = "[add_call 56 (Constant 42) (Var ex_lv_adjoint), Var ex_x_adjoint]"
  let ?sts = "[ex_interned, fresh ex_interned, fresh ex_interned]"
  have nz: "node (Tuple 41 ?fs1) \<notin> zeros_tracker ex_interned \<and>
            node (Tuple 44 ?fs2) \<notin> zeros_tracker ex_interned"
    by (simp add: ex_interned_def init_state_def)
  have first: "DoAdd ex_interned (Constant 42) ex_seed =
      Inr (add_call 56 (Constant 42) (Var ex_lv_adjoint), fresh ex_interned)"
    using DoAdd_rules [of "Constant 42" ex_interned ex_seed]
    by (simp add: ex_interned_def ex_seed_def ones_call_def init_state_def intern_or_self_def)
  have second: "DoAdd (fresh ex_interned) (Var ex_x_adjoint) ex_zero =
      Inr (Var ex_x_adjoint, fresh ex_interned)"
    using DoAdd_rules [of "Var ex_x_adjoint" "fresh ex_interned" ex_zero]
    by (simp add: ex_interned_def ex_zero_def zeros_call_def init_state_def ex_x_adjoint_def
          fresh_def)
  have steps: "\<forall>i<length ?fs1. DoAdd (?sts ! i) (?fs1 ! i) (?fs2 ! i) = Inr (?rs ! i, ?sts ! Suc i)"
    using first second by (auto simp: less_Suc_eq)
  have nn: "next_node (last ?sts) = 57"
    by (simp add: ex_interned_def init_state_def fresh_def)
  from steps nn have chain:
    "\<exists>rs sts. length rs = length ?fs1 \<and> length sts = Suc (length ?fs1) \<and>
        sts ! 0 = ex_interned \<and>
        (\<forall>i<length ?fs1. DoAdd (sts ! i) (?fs1 ! i) (?fs2 ! i) = Inr (rs ! i, sts ! Suc i)) \<and>
        Tuple 57 ?rs = Tuple (next_node (last sts)) rs \<and>
        fresh (fresh ex_interned) = fresh (last sts)"
    by (intro exI [of _ ?rs] exI [of _ ?sts]) simp
  have "DoAdd ex_interned (Tuple 41 ?fs1) (Tuple 44 ?fs2) =
          Inr (Tuple 57 ?rs, fresh (fresh ex_interned))"
    using DoAdd_rules [of "Tuple 41 ?fs1" ex_interned "Tuple 44 ?fs2"] nz chain
    by simp
  with rules show ?thesis by simp
qed

text \<open>The claim as stated fails when only the first operand is a tuple literal: the
  result is a fatal error, not an \<open>add\<close> call.\<close>

theorem DoAdd_rules_counterexample:
  "node (Tuple 41 [Constant 42]) \<notin> zeros_tracker ex_interned \<and>
   node (Constant 43) \<notin> zeros_tracker ex_interned \<and>
   \<not> (is_Tuple (Tuple 41 [Constant 42]) \<and> is_Tuple (Constant 43)) \<and>
   DoAdd ex_interned (Tuple 41 [Constant 42]) (Constant 43) = Inl TypeNotMatch"
  by (simp add: DoAdd.simps ex_interned_def init_state_def)


section \<open>The table of adjoint variables\<close>

lemma keeps_vars_refl [simp]: "keeps_vars st st"
  by (simp add: keeps_vars_def)

lemma keeps_vars_trans: "keeps_vars a b \<Longrightarrow> keeps_vars b c \<Longrightarrow> keeps_vars a c"
  by (simp add: keeps_vars_def)

lemma only_alloc_keeps_vars: "only_alloc st st' \<Longrightarrow> keeps_vars st st'"
  by (simp add: only_alloc_def keeps_vars_def)

lemma keeps_vars_fresh [simp]: "keeps_vars st (fresh st') = keeps_vars st st'"
  by (simp add: keeps_vars_def fresh_def)

lemma keeps_vars_set_adjoint_expr [simp]:
  "keeps_vars st (set_adjoint_expr v e st') = keeps_vars st st'"
  by (simp add: keeps_vars_def set_adjoint_expr_def)

lemma DoAddInTuple_fields_frame:
  "DoAddInTuple_fields st fs i k inc = Inr (rs, st') \<Longrightarrow> only_alloc st st'"
proof (induction st fs i k inc arbitrary: rs st' rule: DoAddInTuple_fields.induct)
  case (1 st i index increment)
  then show ?case by simp
next
  case (2 st f fs i index increment)
  show ?case
  proof (cases "i = index")
    case True
    with "2.prems" obtain r st1 rs' where
      a: "DoAdd st f increment = Inr (r, st1)" and
      b: "DoAddInTuple_fields st1 fs (i + 1) index increment = Inr (rs', st')"
      by (auto split: sum.splits prod.splits)
    from "2.IH"(1) [OF True a refl b] DoAdd_frame(1) [OF a] show ?thesis
      by (blast intro: only_alloc_trans)
  next
    case False
    with "2.prems" "2.IH"(2) show ?thesis
      by (auto split: sum.splits prod.splits)
  qed
qed

lemma DoAddInTuple_frame:
  "DoAddInTuple st fs k inc = Inr (r, st') \<Longrightarrow> only_alloc st st'"
  by (auto simp: DoAddInTuple_def split: sum.splits prod.splits
           dest!: DoAddInTuple_fields_frame intro: only_alloc_fresh)

lemma BuildEmpty_keeps_vars:
  "BuildEmptyNestedTupleExpr st ss ts = Inr (r, st') \<Longrightarrow> keeps_vars st st'"
  "BuildEmpty_fields st ss ts = Inr (rs, st') \<Longrightarrow> keeps_vars st st'"
proof (induction st ss ts and st ss ts arbitrary: r st' and rs st'
        rule: BuildEmptyNestedTupleExpr_BuildEmpty_fields.induct)
  case (1 st shape_fields type_fields)
  then show ?case
    by (auto simp: BuildEmptyNestedTupleExpr.simps split: sum.splits prod.splits)
next
  case (3 st n ss rest ts)
  from "3.prems" obtain tfs ts' r1 st1 rs' where
    ts: "ts = TupleType tfs # ts'" and
    a: "BuildEmptyNestedTupleExpr st ss tfs = Inr (r1, st1)" and
    b: "BuildEmpty_fields st1 rest ts' = Inr (rs', st')"
    by (auto split: sum.splits prod.splits list.splits ty.splits)
  from "3.IH"(1) [OF ts refl a] "3.IH"(2) [OF ts refl a refl b] show ?case
    by (rule keeps_vars_trans)
next
  case (4 st n vs rest ts)
  from "4.prems" obtain ndim dtype ts' rs' where
    ts: "ts = DynTensorType ndim dtype # ts'" and
    run: "BuildEmpty_fields
            (fresh (st\<lparr>zeros_tracker := insert (next_node st) (zeros_tracker st)\<rparr>)) rest ts'
          = Inr (rs', st')"
    by (auto split: sum.splits prod.splits list.splits ty.splits)
  from "4.IH" [OF ts refl run] show ?case
    by (simp add: keeps_vars_def fresh_def)
qed simp_all

lemma init_tuple_adjoint_keeps_vars:
  "init_tuple_adjoint v ss st = Inr st' \<Longrightarrow> keeps_vars st st'"
  by (auto simp: init_tuple_adjoint_def split: if_splits sum.splits ty.splits prod.splits
           dest!: BuildEmpty_keeps_vars(1))
     (simp add: keeps_vars_def)

lemma UpdateExprMap_keeps_vars:
  "UpdateExprMap st base inc = Inr st' \<Longrightarrow> keeps_vars st st'"
  "UpdateExprMap_fields st bs incs = Inr st' \<Longrightarrow> keeps_vars st st'"
proof (induction st base inc and st bs incs arbitrary: st' and st'
        rule: UpdateExprMap_UpdateExprMap_fields.induct)
  case (1 st v increment)
  then show ?case
    by (auto split: option.splits sum.splits prod.splits
             dest!: DoAdd_frame(1) only_alloc_keeps_vars)
next
  case (2 st n base_fields increment)
  then show ?case by (auto split: expr.splits)
next
  case (3 st n tuple index increment)
  then show ?case
    by (auto split: expr.splits shape.splits sum.splits option.splits prod.splits
             dest!: init_tuple_adjoint_keeps_vars DoAddInTuple_frame only_alloc_keeps_vars
             intro: keeps_vars_trans)
next
  case (7 st b bs i incs)
  then show ?case
    by (auto split: sum.splits intro: keeps_vars_trans)
qed simp_all

lemma update_args_keeps_vars:
  "update_args st args ps = Inr st' \<Longrightarrow> keeps_vars st st'"
proof (induction st args ps arbitrary: st' rule: update_args.induct)
  case (3 st a args p partials)
  from "3.prems" obtain arg st1 where
    a: "a = Var arg" and u: "UpdateExprMap st (Var arg) p = Inr st1" and
    r: "update_args st1 args partials = Inr st'"
    by (auto split: expr.splits sum.splits)
  from UpdateExprMap_keeps_vars(1) [OF u] "3.IH" [OF a u r] show ?case
    by (rule keeps_vars_trans)
qed simp_all

lemma call_gradient_keeps_vars:
  "call_gradient ext f c a st = Inr (ps, st') \<Longrightarrow> keeps_vars st st'"
  by (auto simp: call_gradient_def keeps_vars_def split: callee.splits option.splits)

lemma back_propagate_keeps_vars:
  "back_propagate ext a val ae st = Inr st' \<Longrightarrow> keeps_vars st st'"
  by (cases val)
     (auto simp: back_propagate_def bind_err_Inr_iff simp del: UpdateExprMap.simps
           split: if_splits
           dest!: UpdateExprMap_keeps_vars(1) update_args_keeps_vars call_gradient_keeps_vars
           intro: keeps_vars_trans)

lemma InitGrad_keeps_vars: "InitGrad a v st = Inr st' \<Longrightarrow> keeps_vars st st'"
  by (auto simp: InitGrad_def bind_err_Inr_iff)

lemma seed_or_skip_keeps_vars: "seed_or_skip a v st = Inr (Some st') \<Longrightarrow> keeps_vars st st'"
  by (auto simp: seed_or_skip_def bind_err_Inr_iff split: if_splits dest: InitGrad_keeps_vars)

lemma BindAndEmit_keeps_vars: "BindAndEmit v e st = Inr st' \<Longrightarrow> keeps_vars st st'"
  by (auto simp: BindAndEmit_def emit_binding_def keeps_vars_def split: option.splits sum.splits)

lemma grows_dataflow_refl [simp]: "grows_dataflow st st"
  by (simp add: grows_dataflow_def split: option.splits)

lemma grows_dataflow_trans:
  assumes "grows_dataflow a b" and "grows_dataflow b c"
  shows "grows_dataflow a c"
  unfolding grows_dataflow_def
proof (intro conjI allI)
  show "target_var c = target_var a"
    using assms by (simp add: grows_dataflow_def)
next
  fix k
  from assms have
    ab: "case adjoint_var_map a k of Some x \<Rightarrow> adjoint_var_map b k = Some x
         | None \<Rightarrow> (case adjoint_var_map b k of None \<Rightarrow> True | Some x \<Rightarrow> is_dataflow x)" and
    bc: "case adjoint_var_map b k of Some x \<Rightarrow> adjoint_var_map c k = Some x
         | None \<Rightarrow> (case adjoint_var_map c k of None \<Rightarrow> True | Some x \<Rightarrow> is_dataflow x)"
    by (simp_all add: grows_dataflow_def)
  then show "case adjoint_var_map a k of Some x \<Rightarrow> adjoint_var_map c k = Some x
         | None \<Rightarrow> (case adjoint_var_map c k of None \<Rightarrow> True | Some x \<Rightarrow> is_dataflow x)"
    by (auto split: option.splits)
qed

lemma keeps_vars_grows: "keeps_vars st st' \<Longrightarrow> grows_dataflow st st'"
  by (auto simp: keeps_vars_def grows_dataflow_def split: option.splits)

lemma CreateAdjointVar_dataflow_grows:
  "CreateAdjointVar v True st = Inr st' \<Longrightarrow>
     grows_dataflow st st' \<and> adjoint_var_map st' (v_node v) \<noteq> None"
  by (auto simp: CreateAdjointVar_def grows_dataflow_def fresh_def
           split: if_splits sum.splits option.splits)

lemma ReverseVisit_grows:
  assumes "ReverseVisit ext x val st = Inr st'"
  shows "grows_dataflow st st' \<and> adjoint_var_map st' (v_node x) \<noteq> None"
proof -
  from assms obtain st1 a r where
    c: "CreateAdjointVar x True st = Inr st1" and
    s: "seed_or_skip a x st1 = Inr r" and
    rest: "(case r of None \<Rightarrow> Inr st1
            | Some st2 \<Rightarrow>
                bind_err (map_at (adjoint_expr_map st2) (v_node x)) (\<lambda>ae.
                bind_err (BindAndEmit a ae st2) (\<lambda>st3.
                  back_propagate ext a val ae st3))) = Inr st'"
    by (auto simp: ReverseVisit_def bind_err_Inr_iff)
  from CreateAdjointVar_dataflow_grows [OF c] have
    g1: "grows_dataflow st st1" and n1: "adjoint_var_map st1 (v_node x) \<noteq> None"
    by simp_all
  have "keeps_vars st1 st'"
  proof (cases r)
    case None
    with rest show ?thesis by simp
  next
    case (Some st2)
    with rest obtain ae st3 where
      b: "BindAndEmit a ae st2 = Inr st3" and p: "back_propagate ext a val ae st3 = Inr st'"
      by (auto simp: bind_err_Inr_iff)
    from s Some have "keeps_vars st1 st2" by (auto dest: seed_or_skip_keeps_vars)
    with BindAndEmit_keeps_vars [OF b] back_propagate_keeps_vars [OF p]
    show ?thesis by (blast intro: keeps_vars_trans)
  qed
  then have "grows_dataflow st1 st'" and "adjoint_var_map st' = adjoint_var_map st1"
    by (simp_all add: keeps_vars_grows keeps_vars_def)
  with g1 n1 show ?thesis
    by (auto intro: grows_dataflow_trans)
qed

lemma reverse_loop_grows:
  "reverse_loop ext bs st = Inr st' \<Longrightarrow>
     grows_dataflow st st' \<and>
     (\<forall>x val. VarBinding x val \<in> set bs \<longrightarrow> adjoint_var_map st' (v_node x) \<noteq> None)"
proof (induction bs arbitrary: st)
  case Nil
  then show ?case by simp
next
  case (Cons b bs)
  from Cons.prems obtain st1 where
    step: "reverse_step ext b st = Inr st1" and loop: "reverse_loop ext bs st1 = Inr st'"
    by (auto split: sum.splits)
  from Cons.IH [OF loop] have
    g2: "grows_dataflow st1 st'" and
    all: "\<And>x val. VarBinding x val \<in> set bs \<Longrightarrow> adjoint_var_map st' (v_node x) \<noteq> None"
    by auto
  have g1: "grows_dataflow st st1 \<and>
            (\<forall>x val. b = VarBinding x val \<longrightarrow> adjoint_var_map st1 (v_node x) \<noteq> None)"
    using step by (cases b) (auto simp: reverse_step_def dest: ReverseVisit_grows)
  have keep: "\<And>k. adjoint_var_map st1 k \<noteq> None \<Longrightarrow> adjoint_var_map st' k \<noteq> None"
    using g2 by (auto simp: grows_dataflow_def split: option.splits dest!: spec)
  from g1 g2 all keep show ?case
    by (auto intro: grows_dataflow_trans)
qed

text \<open>
  Claim C4, as amended. Every adjoint variable that the reverse walk creates is an
  intermediate (dataflow) variable, whatever the kind of the original variable: for every
  variable binding \<open>x := e\<close> of the walked region whose variable had no adjoint variable
  before the walk, \<open>AdjVar[x]\<close> exists after the walk and is intermediate.
\<close>

theorem reverse_walk_adjoint_vars_are_intermediate:
  assumes "reverse_loop ext bs st = Inr st'"
    and "VarBinding x e \<in> set bs"
    and "adjoint_var_map st (v_node x) = None"
  shows "\<exists>a. adjoint_var_map st' (v_node x) = Some a \<and> is_dataflow a"
proof -
  from reverse_loop_grows [OF assms(1)] assms(2) have
    g: "grows_dataflow st st'" and "adjoint_var_map st' (v_node x) \<noteq> None"
    by auto
  then obtain a where a: "adjoint_var_map st' (v_node x) = Some a" by auto
  with g assms(3) have "is_dataflow a"
    by (auto simp: grows_dataflow_def split: option.splits dest!: spec[of _ "v_node x"])
  with a show ?thesis by simp
qed

theorem reverse_walk_adjoint_vars_are_intermediate_witness:
  "result_error (reverse_loop ex_ext [VarBinding ex_lv (Var ex_x)]
      ((init_state 50)\<lparr>target_var := Some ex_lv\<rparr>)) = None \<and>
   VarBinding ex_lv (Var ex_x) \<in> set [VarBinding ex_lv (Var ex_x)] \<and>
   adjoint_var_map ((init_state 50)\<lparr>target_var := Some ex_lv\<rparr>) (v_node ex_lv) = None \<and>
   \<not> is_dataflow ex_lv \<and>
   (\<exists>st' a. reverse_loop ex_ext [VarBinding ex_lv (Var ex_x)]
      ((init_state 50)\<lparr>target_var := Some ex_lv\<rparr>) = Inr st' \<and>
      adjoint_var_map st' (v_node ex_lv) = Some a \<and> is_dataflow a)"
proof -
  have ok: "result_error (reverse_loop ex_ext [VarBinding ex_lv (Var ex_x)]
      ((init_state 50)\<lparr>target_var := Some ex_lv\<rparr>)) = None"
    by code_simp
  then obtain st' where run: "reverse_loop ex_ext [VarBinding ex_lv (Var ex_x)]
      ((init_state 50)\<lparr>target_var := Some ex_lv\<rparr>) = Inr st'"
    by (auto simp: result_error_None)
  have none: "adjoint_var_map ((init_state 50)\<lparr>target_var := Some ex_lv\<rparr>) (v_node ex_lv) = None"
    by (simp add: init_state_def)
  have mem: "VarBinding ex_lv (Var ex_x) \<in> set [VarBinding ex_lv (Var ex_x)]" by simp
  from reverse_walk_adjoint_vars_are_intermediate [OF run mem none] ok run none
  show ?thesis by (auto simp: ex_lv_def)
qed

text \<open>The claim as stated fails: in the run on \<open>ex_alias\<close> the target \<open>lv\<close> is an
  output variable and its adjoint variable is intermediate.\<close>

theorem adjoint_kind_counterexample:
  "is_dataflow ex_lv = False \<and>
   map_option is_dataflow
     (final_adjoint_var (FuncTransform ex_ext [] ex_alias (init_state 50)) ex_lv) = Some True"
  by code_simp


section \<open>Runs of the pass on the concrete programs\<close>

text \<open>
  Claim C5 on the code. For a requires-gradient input of tensor type that the target does
  not depend on, the pass emits \<open>adjoint := zeros(shape, dtype)\<close> (the run on
  \<open>ex_alias\<close>, input \<open>y\<close>). For such an input of tuple type the pass does not emit
  zeros leaf by leaf: \<^verbatim>\<open>Downcast<DynTensorType>\<close> of the tuple type fails and the pass
  aborts (the run on \<open>ex_unused_tuple\<close>, input \<open>p\<close>).
\<close>

theorem default_adjoint_of_tuple_input_aborts:
  "result_error (SimpleAD ex_ext 50 ex_module ''unused_tuple'' [ex_p]) = Some DowncastFailed \<and>
   result_error (SimpleAD ex_ext 50 ex_module ''unused_tuple'' []) = Some DowncastFailed \<and>
   map_option last (emitted_bindings (FuncTransform ex_ext [ex_y] ex_alias (init_state 50))) =
     Some (EmitOutput (VarBinding
        \<lparr>v_node = 53, vid = 53, name_hint = ''y_adjoint'', is_dataflow = False,
         v_shape = ShapeExpr 12 [], v_type = Some scalar_f32, span = None\<rparr>
        (zeros_call 56 (ShapeExpr 12 []) ''float32'')))"
  by code_simp

text \<open>
  Claim C3 on the code. In the run on \<open>ex_tuple_alias\<close>, after the reverse walk has
  visited \<open>lv = s[0]\<close> and \<open>s = t\<close>, the entry of the tuple-typed variable \<open>t\<close> in
  \<open>AdjExpr\<close> is not a tuple literal (it is the variable \<open>s_adjoint\<close>, put there by the
  intern rewriting of \<open>UpdateExprMap\<close>). Visiting \<open>t = (x, y)\<close> then aborts with "base
  and increment should be both tuple".
\<close>

theorem tuple_adjoint_becomes_variable:
  "v_type ex_t = Some (TupleType [scalar_f32, scalar_f32]) \<and>
   map_option is_Tuple
     (adjoint_expr_of
        (reverse_loop ex_ext
           [VarBinding ex_lv (TupleGetItem 21 (Var ex_s) 0), VarBinding ex_s (Var ex_t)]
           ((init_state 50)\<lparr>target_var := Some ex_lv\<rparr>)) ex_t) = Some False \<and>
   map_option is_Var
     (adjoint_expr_of
        (reverse_loop ex_ext
           [VarBinding ex_lv (TupleGetItem 21 (Var ex_s) 0), VarBinding ex_s (Var ex_t)]
           ((init_state 50)\<lparr>target_var := Some ex_lv\<rparr>)) ex_t) = Some True \<and>
   result_error (FuncTransform ex_ext [] ex_tuple_alias (init_state 50)) =
     Some BaseIncrementNotTuple"
  by code_simp


section \<open>The parameters of the new function\<close>

lemma clone_of_fresh [simp]: "clone_of (fresh st) n p = clone_of st n p"
  by (simp add: clone_of_def fresh_def shape_def checked_type_field_def)

lemma clone_of_next_node [simp]: "clone_of (st\<lparr>next_node := k\<rparr>) n p = clone_of st n p"
  by (simp add: clone_of_def shape_def checked_type_field_def)

lemma clone_params_result:
  "clone_params ps m st = (nps, m', st') \<Longrightarrow>
     length nps = length ps \<and>
     (\<forall>i<length ps. nps ! i = clone_of st (next_node st + i) (ps ! i)) \<and>
     st' = st\<lparr>next_node := next_node st + length ps\<rparr>"
proof (induction ps arbitrary: m st nps m' st')
  case Nil
  then show ?case by simp
next
  case (Cons p ps)
  from Cons.prems obtain rest where
    rec: "clone_params ps (m(vid p \<mapsto> clone_of st (next_node st) p)) (fresh st) = (rest, m', st')"
    and nps: "nps = clone_of st (next_node st) p # rest"
    by (auto simp: clone_of_def Let_def split: prod.splits)
  from Cons.IH [OF rec] have
    len: "length rest = length ps" and
    nth: "\<And>i. i < length ps \<Longrightarrow> rest ! i = clone_of st (Suc (next_node st) + i) (ps ! i)" and
    st': "st' = st\<lparr>next_node := Suc (next_node st) + length ps\<rparr>"
    by (simp_all add: fresh_def)
  show ?case
  proof (intro conjI allI impI)
    show "length nps = length (p # ps)" using len nps by simp
  next
    fix i assume "i < length (p # ps)"
    then show "nps ! i = clone_of st (next_node st + i) ((p # ps) ! i)"
      using nth nps by (cases i) simp_all
  next
    show "st' = st\<lparr>next_node := next_node st + length (p # ps)\<rparr>"
      using st' by simp
  qed
qed

lemma clone_params_remap_other:
  "clone_params ps m st = (nps, m', st') \<Longrightarrow> k \<notin> vid ` set ps \<Longrightarrow> m' k = m k"
proof (induction ps arbitrary: m st nps m' st')
  case Nil
  then show ?case by simp
next
  case (Cons p ps)
  from Cons.prems(1) obtain rest where
    rec: "clone_params ps (m(vid p \<mapsto> clone_of st (next_node st) p)) (fresh st) = (rest, m', st')"
    by (auto simp: clone_of_def Let_def split: prod.splits)
  from Cons.IH [OF rec] Cons.prems(2) show ?case by simp
qed

lemma clone_params_remap_param:
  "clone_params ps m st = (nps, m', st') \<Longrightarrow> distinct (map vid ps) \<Longrightarrow> i < length ps \<Longrightarrow>
     m' (vid (ps ! i)) = Some (nps ! i)"
proof (induction ps arbitrary: m st nps m' st' i)
  case Nil
  then show ?case by simp
next
  case (Cons p ps)
  from Cons.prems(1) obtain rest where
    rec: "clone_params ps (m(vid p \<mapsto> clone_of st (next_node st) p)) (fresh st) = (rest, m', st')"
    and nps: "nps = clone_of st (next_node st) p # rest"
    by (auto simp: clone_of_def Let_def split: prod.splits)
  show ?case
  proof (cases i)
    case 0
    from Cons.prems(2) have "vid p \<notin> vid ` set ps" by auto
    from clone_params_remap_other [OF rec this] 0 nps show ?thesis by simp
  next
    case (Suc j)
    with Cons.prems have "distinct (map vid ps)" "j < length ps" by simp_all
    from Cons.IH [OF rec this] Suc nps show ?thesis by simp
  qed
qed

lemma remap_expr_is_Var: "is_Var (remap_expr m e) = is_Var e"
  by (cases e) (auto split: option.splits)

lemma clone_params_remap_cases:
  "clone_params ps m st = (nps, m', st') \<Longrightarrow> m' k = Some np \<Longrightarrow>
     m k = Some np \<or> (\<exists>p \<in> set ps. \<exists>j. vid p = k \<and> np = clone_of st j p)"
proof (induction ps arbitrary: m st nps m' st')
  case Nil
  then show ?case by simp
next
  case (Cons p ps)
  from Cons.prems(1) obtain rest where
    rec: "clone_params ps (m(vid p \<mapsto> clone_of st (next_node st) p)) (fresh st) = (rest, m', st')"
    by (auto simp: clone_of_def Let_def split: prod.splits)
  from Cons.IH [OF rec Cons.prems(2)] show ?case
    by (auto split: if_splits)
qed

section \<open>The adjoint variables of the inputs\<close>

lemma only_vars_alloc_refl [simp]: "only_vars_alloc st st"
  by (simp add: only_vars_alloc_def)

lemma only_vars_alloc_trans:
  "only_vars_alloc a b \<Longrightarrow> only_vars_alloc b c \<Longrightarrow> only_vars_alloc a c"
  by (simp add: only_vars_alloc_def)

lemma CreateAdjointVar_result:
  "CreateAdjointVar v d st = Inr st' \<Longrightarrow>
     only_vars_alloc st st' \<and>
     (\<forall>k. k \<noteq> v_node v \<longrightarrow> adjoint_var_map st' k = adjoint_var_map st k) \<and>
     (adjoint_var_map st (v_node v) = None \<longrightarrow>
        (\<exists>a. adjoint_var_map st' (v_node v) = Some a \<and>
             name_hint a = name_hint v @ ''_adjoint'' \<and> is_dataflow a = d \<and>
             v_shape a = shape st v \<and> v_type a = checked_type_field st v)) \<and>
     (\<forall>a. adjoint_var_map st (v_node v) = Some a \<longrightarrow> adjoint_var_map st' (v_node v) = Some a)"
  by (auto simp: CreateAdjointVar_def only_vars_alloc_def fresh_def checked_type_def
           split: if_splits sum.splits option.splits)

lemma create_input_adjoints_other:
  "create_input_adjoints G ps nps st = Inr st' \<Longrightarrow> k \<notin> v_node ` set nps \<Longrightarrow>
     adjoint_var_map st' k = adjoint_var_map st k"
proof (induction G ps nps st arbitrary: st' rule: create_input_adjoints.induct)
  case (1 G param ps new_param nps st)
  from "1.prems"(1) obtain st1 where
    c: "CreateAdjointVar new_param (\<not> requires_grad G param) st = Inr st1" and
    r: "create_input_adjoints G ps nps st1 = Inr st'"
    by (auto split: sum.splits)
  from CreateAdjointVar_result [OF c] "1.prems"(2)
  have "adjoint_var_map st1 k = adjoint_var_map st k" by auto
  with "1.IH" [OF c r] "1.prems"(2) show ?case by auto
qed simp_all

lemma create_input_adjoints_result:
  "create_input_adjoints G ps nps st = Inr st' \<Longrightarrow> length ps = length nps \<Longrightarrow>
   distinct (map v_node nps) \<Longrightarrow> \<forall>np \<in> set nps. adjoint_var_map st (v_node np) = None \<Longrightarrow>
     only_vars_alloc st st' \<and>
     (\<forall>i<length nps. \<exists>a. adjoint_var_map st' (v_node (nps ! i)) = Some a \<and>
          name_hint a = name_hint (nps ! i) @ ''_adjoint'' \<and>
          is_dataflow a = (\<not> requires_grad G (ps ! i)))"
proof (induction G ps nps st arbitrary: st' rule: create_input_adjoints.induct)
  case (1 G param ps new_param nps st)
  from "1.prems"(1) obtain st1 where
    c: "CreateAdjointVar new_param (\<not> requires_grad G param) st = Inr st1" and
    r: "create_input_adjoints G ps nps st1 = Inr st'"
    by (auto split: sum.splits)
  from "1.prems"(4) have none: "adjoint_var_map st (v_node new_param) = None" by simp
  from CreateAdjointVar_result [OF c] none obtain a where
    f1: "only_vars_alloc st st1" and
    other: "\<And>k. k \<noteq> v_node new_param \<Longrightarrow> adjoint_var_map st1 k = adjoint_var_map st k" and
    a: "adjoint_var_map st1 (v_node new_param) = Some a"
       "name_hint a = name_hint new_param @ ''_adjoint''"
       "is_dataflow a = (\<not> requires_grad G param)"
    by blast
  from "1.prems"(3) have notin: "v_node new_param \<notin> v_node ` set nps" and d: "distinct (map v_node nps)"
    by auto
  have none1: "\<forall>np \<in> set nps. adjoint_var_map st1 (v_node np) = None"
  proof
    fix np assume np: "np \<in> set nps"
    then have "v_node np \<noteq> v_node new_param" using notin by (metis imageI)
    with other "1.prems"(4) np show "adjoint_var_map st1 (v_node np) = None" by simp
  qed
  from "1.prems"(2) have len: "length ps = length nps" by simp
  from "1.IH" [OF c r len d none1] have
    f2: "only_vars_alloc st1 st'" and
    ih: "\<And>i. i < length nps \<Longrightarrow> \<exists>a. adjoint_var_map st' (v_node (nps ! i)) = Some a \<and>
          name_hint a = name_hint (nps ! i) @ ''_adjoint'' \<and>
          is_dataflow a = (\<not> requires_grad G (ps ! i))"
    by auto
  have keep: "adjoint_var_map st' (v_node new_param) = Some a"
    using create_input_adjoints_other [OF r notin] a(1) by simp
  show ?case
  proof (intro conjI allI impI)
    show "only_vars_alloc st st'" using f1 f2 by (rule only_vars_alloc_trans)
  next
    fix i assume i: "i < length (new_param # nps)"
    show "\<exists>a. adjoint_var_map st' (v_node ((new_param # nps) ! i)) = Some a \<and>
          name_hint a = name_hint ((new_param # nps) ! i) @ ''_adjoint'' \<and>
          is_dataflow a = (\<not> requires_grad G ((param # ps) ! i))"
    proof (cases i)
      case 0
      with keep a show ?thesis by simp
    next
      case (Suc j)
      with i ih [of j] show ?thesis by simp
    qed
  qed
qed simp_all

lemma emit_input_adjoint_result:
  assumes "emit_input_adjoint np st = Inr (a, t, st')"
  shows "adjoint_var_map st (v_node np) = Some a \<and> keeps_vars st st'"
proof -
  from assms have a: "adjoint_var_map st (v_node np) = Some a"
    by (auto simp: emit_input_adjoint_def bind_err_Inr_iff map_at_def split: option.splits)
  from assms a have
    "(case adjoint_expr_map st (v_node np) of
        Some adjoint_expr \<Rightarrow> BindAndEmit a adjoint_expr st
      | None \<Rightarrow>
          bind_err (dyn_tensor_dtype st np) (\<lambda>dtype.
            BindAndEmit a (zeros_call (next_node st) (shape st np) dtype) (fresh st))) = Inr st'"
    by (auto simp: emit_input_adjoint_def bind_err_Inr_iff map_at_def)
  then have "keeps_vars st st'"
    by (auto simp: bind_err_Inr_iff split: option.splits dest!: BindAndEmit_keeps_vars)
       (simp add: keeps_vars_def fresh_def)
  with a show ?thesis by simp
qed

lemma emit_input_adjoints_result:
  "emit_input_adjoints G ps nps st = Inr (outs, tys, st') \<Longrightarrow>
     keeps_vars st st' \<and>
     outs = map (\<lambda>np. the (adjoint_var_map st (v_node np))) (selected G ps nps)"
proof (induction G ps nps st arbitrary: outs tys st' rule: emit_input_adjoints.induct)
  case (1 G param ps new_param nps st)
  show ?case
  proof (cases "requires_grad G param")
    case True
    with "1.prems" obtain a t st1 outs' tys' where
      e: "emit_input_adjoint new_param st = Inr (a, t, st1)" and
      r: "emit_input_adjoints G ps nps st1 = Inr (outs', tys', st')" and
      o: "outs = a # outs'"
      by (auto split: sum.splits prod.splits)
    from emit_input_adjoint_result [OF e] have
      a: "adjoint_var_map st (v_node new_param) = Some a" and k1: "keeps_vars st st1"
      by simp_all
    from "1.IH"(1) [OF True e refl refl r] have
      k2: "keeps_vars st1 st'" and
      o': "outs' = map (\<lambda>np. the (adjoint_var_map st1 (v_node np))) (selected G ps nps)"
      by simp_all
    from k1 have "adjoint_var_map st1 = adjoint_var_map st" by (simp add: keeps_vars_def)
    with a o o' True k1 k2 show ?thesis
      by (auto simp: selected_def intro: keeps_vars_trans)
  next
    case False
    with "1.prems" "1.IH"(2) show ?thesis
      by (auto simp: selected_def)
  qed
qed (simp_all add: selected_def)

lemma FuncTransform_Inr:
  assumes "FuncTransform ext G f st = Inr (f', st')"
  shows "\<exists>blocks r nps vr st1 bs.
           body f = SeqExpr blocks r \<and>
           clone_params (params f) Map.empty st = (nps, vr, st1) \<and>
           map (remap_block vr) blocks = [DataflowBlock bs] \<and>
           differentiate ext G f nps bs (remap_expr vr r) (st1\<lparr>builder := map Reemit bs\<rparr>)
             = Inr (f', st')"
  using assms
  by (auto simp: FuncTransform_def split: fbody.splits prod.splits list.splits block.splits)

lemma differentiate_Inr:
  assumes "differentiate ext G f nps bs sb st = Inr (f', st')"
  shows "\<exists>st1 target st3 outs tys st4.
           create_input_adjoints G (params f) nps st = Inr st1 \<and>
           sb = Var target \<and> CheckTarget st1 target = Inr () \<and>
           reverse_loop ext (rev bs) (st1\<lparr>target_var := Some target\<rparr>) = Inr st3 \<and>
           emit_input_adjoints G (params f) nps st3 = Inr (outs, tys, st4) \<and>
           f' = \<lparr>params = nps,
                 body = Normalize ext (SeqExpr [EndBlock st4]
                   (Tuple (Suc (next_node st4))
                      [sb, Tuple (next_node st4) (map Var outs)])),
                 ret_type = TupleType [ret_type f, TupleType tys],
                 ret_shape = RuntimeDepShape (Suc (Suc (next_node st4))),
                 func_attrs = func_attrs f\<rparr> \<and>
           st' = st4\<lparr>next_node := next_node st4 + 3\<rparr>"
proof -
  from assms obtain st1 st2 st3 outs tys st4 where
    c: "create_input_adjoints G (params f) nps st = Inr st1" and
    t: "(case sb of
           Var target \<Rightarrow>
             bind_err (CheckTarget st1 target) (\<lambda>_. Inr (st1\<lparr>target_var := Some target\<rparr>))
         | _ \<Rightarrow> Inl BodyNotVar) = Inr st2" and
    l: "reverse_loop ext (rev bs) st2 = Inr st3" and
    e: "emit_input_adjoints G (params f) nps st3 = Inr (outs, tys, st4)" and
    fin: "f' = \<lparr>params = nps,
           body = Normalize ext (SeqExpr [EndBlock st4]
             (Tuple (Suc (next_node st4)) [sb, Tuple (next_node st4) (map Var outs)])),
           ret_type = TupleType [ret_type f, TupleType tys],
           ret_shape = RuntimeDepShape (Suc (Suc (next_node st4))),
           func_attrs = func_attrs f\<rparr>"
         "st' = st4\<lparr>next_node := next_node st4 + 3\<rparr>"
    by (auto simp: differentiate_def bind_err_Inr_iff Let_def)
  from t obtain target where
    sb: "sb = Var target" and ct: "CheckTarget st1 target = Inr ()" and
    st2: "st2 = st1\<lparr>target_var := Some target\<rparr>"
    by (cases sb) (auto simp: bind_err_Inr_iff)
  with c l e fin show ?thesis by blast
qed


lemma shape_init_state [simp]: "shape (init_state n) p = v_shape p"
  by (simp add: shape_def init_state_def)

lemma checked_type_field_init_state [simp]: "checked_type_field (init_state n) p = v_type p"
  by (simp add: checked_type_field_def init_state_def)





section \<open>The return value\<close>

lemma selected_Cons:
  "selected G (p # ps) (np # nps) =
     (if requires_grad G p then np # selected G ps nps else selected G ps nps)"
  by (simp add: selected_def)

lemma selected_map:
  "length ps = length nps \<Longrightarrow>
   (\<forall>i<length ps. requires_grad G (ps ! i) \<longrightarrow> h (nps ! i) = g (ps ! i)) \<Longrightarrow>
     map h (selected G ps nps) = map g (filter (requires_grad G) ps)"
proof (induction ps nps rule: list_induct2)
  case Nil
  then show ?case by (simp add: selected_def)
next
  case (Cons p ps np nps)
  from Cons.prems have hd: "requires_grad G p \<longrightarrow> h np = g p"
    by (auto dest: spec[of _ 0])
  from Cons.prems have "\<forall>i<length ps. requires_grad G (ps ! i) \<longrightarrow> h (nps ! i) = g (ps ! i)"
    by (auto dest: spec[of _ "Suc i" for i])
  from Cons.IH [OF this] hd show ?case
    by (simp add: selected_Cons)
qed

lemma selected_all:
  "length ps = length nps \<Longrightarrow>
   (\<forall>i<length ps. requires_grad G (ps ! i) \<longrightarrow> P (nps ! i)) \<Longrightarrow>
     list_all P (selected G ps nps)"
proof (induction ps nps rule: list_induct2)
  case Nil
  then show ?case by (simp add: selected_def)
next
  case (Cons p ps np nps)
  from Cons.prems have hd: "requires_grad G p \<longrightarrow> P np"
    by (auto dest: spec[of _ 0])
  from Cons.prems have "\<forall>i<length ps. requires_grad G (ps ! i) \<longrightarrow> P (nps ! i)"
    by (auto dest: spec[of _ "Suc i" for i])
  from Cons.IH [OF this] hd show ?case
    by (simp add: selected_Cons)
qed

lemma grows_dataflow_keeps:
  "grows_dataflow st st' \<Longrightarrow> adjoint_var_map st k = Some a \<Longrightarrow> adjoint_var_map st' k = Some a"
  by (auto simp: grows_dataflow_def split: option.splits dest!: spec[of _ k])

text \<open>
  Claim C1, as amended. For every successful transformation the return value of the output
  function is the pair \<open>(original_return, (adj_1, \<dots>, adj_k))\<close> (handed to the block
  builder's normalisation), where \<open>original_return\<close> is the target variable and the
  second component lists the adjoint variables of the parameters that require a gradient
  in the order of the parameter list of \<open>F\<close> (not in the order of \<open>G\<close>), each once:
  \<open>adj_i\<close> is the entry of \<open>AdjVar\<close> for the \<open>i\<close>-th such parameter, an output variable
  named after it. When \<open>G\<close> is empty every parameter requires a gradient.
\<close>

theorem return_value_lists_adjoints_in_parameter_order:
  assumes "FuncTransform ext require_grads f (init_state n) = Inr (f', st')"
  shows "\<exists>blk n1 n2 ret adjs.
           body f' = Normalize ext (SeqExpr [blk] (Tuple n1 [Var ret, Tuple n2 (map Var adjs)])) \<and>
           target_var st' = Some ret \<and>
           (\<exists>blocks t. body f = SeqExpr blocks (Var t) \<and> vid ret = vid t) \<and>
           adjs = map (\<lambda>np. the (adjoint_var_map st' (v_node np)))
                    (selected require_grads (params f) (params f')) \<and>
           map name_hint adjs =
             map (\<lambda>p. name_hint p @ ''_adjoint'')
               (filter (requires_grad require_grads) (params f)) \<and>
           list_all (\<lambda>a. \<not> is_dataflow a) adjs"
proof -
  let ?G = require_grads
  let ?ps = "params f"
  from FuncTransform_Inr [OF assms] obtain blocks r nps vr st1 bs where
    b: "body f = SeqExpr blocks r" and
    c: "clone_params ?ps Map.empty (init_state n) = (nps, vr, st1)" and
    d: "differentiate ext ?G f nps bs (remap_expr vr r) (st1\<lparr>builder := map Reemit bs\<rparr>)
          = Inr (f', st')"
    by (elim exE conjE) (rule that)
  from clone_params_result [OF c] have
    len: "length nps = length ?ps" and
    nth: "\<And>i. i < length ?ps \<Longrightarrow> nps ! i = clone_of (init_state n) (n + i) (?ps ! i)" and
    st1: "st1 = (init_state n)\<lparr>next_node := n + length ?ps\<rparr>"
    by (simp_all add: init_state_def)
  from differentiate_Inr [OF d] obtain st2 target st3 outs tys st4 where
    cr: "create_input_adjoints ?G ?ps nps (st1\<lparr>builder := map Reemit bs\<rparr>) = Inr st2" and
    sb: "remap_expr vr r = Var target" and
    rl: "reverse_loop ext (rev bs) (st2\<lparr>target_var := Some target\<rparr>) = Inr st3" and
    em: "emit_input_adjoints ?G ?ps nps st3 = Inr (outs, tys, st4)" and
    f': "f' = \<lparr>params = nps,
               body = Normalize ext (SeqExpr [EndBlock st4]
                 (Tuple (Suc (next_node st4))
                    [remap_expr vr r, Tuple (next_node st4) (map Var outs)])),
               ret_type = TupleType [ret_type f, TupleType tys],
               ret_shape = RuntimeDepShape (Suc (Suc (next_node st4))),
               func_attrs = func_attrs f\<rparr>" and
    st': "st' = st4\<lparr>next_node := next_node st4 + 3\<rparr>"
    by blast
  have dist: "distinct (map v_node nps)"
    unfolding distinct_conv_nth
  proof (intro allI impI)
    fix i j assume "i < length (map v_node nps)" "j < length (map v_node nps)" "i \<noteq> j"
    with len nth [of i] nth [of j] show "map v_node nps ! i \<noteq> map v_node nps ! j"
      by (simp add: clone_of_def)
  qed
  have empty: "\<forall>np \<in> set nps. adjoint_var_map (st1\<lparr>builder := map Reemit bs\<rparr>) (v_node np) = None"
    by (simp add: st1 init_state_def)
  from create_input_adjoints_result [OF cr len [symmetric] dist empty] have
    made: "\<And>i. i < length nps \<Longrightarrow> \<exists>a. adjoint_var_map st2 (v_node (nps ! i)) = Some a \<and>
             name_hint a = name_hint (nps ! i) @ ''_adjoint'' \<and>
             is_dataflow a = (\<not> requires_grad ?G (?ps ! i))"
    by blast
  from reverse_loop_grows [OF rl] have g: "grows_dataflow (st2\<lparr>target_var := Some target\<rparr>) st3"
    by simp
  from emit_input_adjoints_result [OF em] have
    k: "keeps_vars st3 st4" and
    outs: "outs = map (\<lambda>np. the (adjoint_var_map st3 (v_node np))) (selected ?G ?ps nps)"
    by simp_all
  from k st' have avm: "adjoint_var_map st' = adjoint_var_map st3"
    by (simp add: keeps_vars_def)
  from g k st' have tv: "target_var st' = Some target"
    by (simp add: keeps_vars_def grows_dataflow_def)
  have final: "\<exists>a. adjoint_var_map st3 (v_node (nps ! i)) = Some a \<and>
             name_hint a = name_hint (?ps ! i) @ ''_adjoint'' \<and>
             is_dataflow a = (\<not> requires_grad ?G (?ps ! i))" if "i < length ?ps" for i
  proof -
    from that len made [of i] obtain a where
      a: "adjoint_var_map st2 (v_node (nps ! i)) = Some a"
         "name_hint a = name_hint (nps ! i) @ ''_adjoint''"
         "is_dataflow a = (\<not> requires_grad ?G (?ps ! i))"
      by auto
    from a(1) have "adjoint_var_map (st2\<lparr>target_var := Some target\<rparr>) (v_node (nps ! i)) = Some a"
      by simp
    from grows_dataflow_keeps [OF g this] a nth [OF that] show ?thesis
      by (simp add: clone_of_def)
  qed
  have names: "map (\<lambda>np. name_hint (the (adjoint_var_map st3 (v_node np)))) (selected ?G ?ps nps) =
               map (\<lambda>p. name_hint p @ ''_adjoint'') (filter (requires_grad ?G) ?ps)"
  proof (rule selected_map [OF len [symmetric]], intro allI impI)
    fix i assume "i < length ?ps" "requires_grad ?G (?ps ! i)"
    with final [of i] show "name_hint (the (adjoint_var_map st3 (v_node (nps ! i)))) =
        name_hint (?ps ! i) @ ''_adjoint''"
      by auto
  qed
  have kinds: "list_all (\<lambda>np. \<not> is_dataflow (the (adjoint_var_map st3 (v_node np))))
                 (selected ?G ?ps nps)"
  proof (rule selected_all [OF len [symmetric]], intro allI impI)
    fix i assume "i < length ?ps" "requires_grad ?G (?ps ! i)"
    with final [of i] show "\<not> is_dataflow (the (adjoint_var_map st3 (v_node (nps ! i))))"
      by auto
  qed
  from sb have "is_Var r" using remap_expr_is_Var [of vr r] by simp
  then obtain t where r: "r = Var t" by (cases r) auto
  have "vid target = vid t"
  proof (cases "vr (vid t)")
    case None
    with sb r show ?thesis by simp
  next
    case (Some np)
    with sb r have "target = np" by simp
    with clone_params_remap_cases [OF c Some] show ?thesis
      by (auto simp: clone_of_def)
  qed
  with b r have orig: "\<exists>blocks t. body f = SeqExpr blocks (Var t) \<and> vid target = vid t"
    by blast
  have "body f' = Normalize ext (SeqExpr [EndBlock st4]
          (Tuple (Suc (next_node st4)) [Var target, Tuple (next_node st4) (map Var outs)]))"
    using f' sb by simp
  moreover have "outs = map (\<lambda>np. the (adjoint_var_map st' (v_node np)))
                    (selected ?G ?ps (params f'))"
    using outs avm f' by simp
  moreover have "map name_hint outs =
      map (\<lambda>p. name_hint p @ ''_adjoint'') (filter (requires_grad ?G) ?ps)"
    using names outs by (simp add: comp_def)
  moreover have "list_all (\<lambda>a. \<not> is_dataflow a) outs"
    using kinds outs by (simp add: list_all_iff)
  ultimately show ?thesis using tv orig by blast
qed

theorem return_value_lists_adjoints_in_parameter_order_witness:
  "result_error (FuncTransform ex_ext [ex_y, ex_x] ex_alias (init_state 50)) = None \<and>
   (\<exists>f' st' blk n1 n2 ret adjs.
      FuncTransform ex_ext [ex_y, ex_x] ex_alias (init_state 50) = Inr (f', st') \<and>
      body f' = SeqExpr [blk] (Tuple n1 [Var ret, Tuple n2 (map Var adjs)]) \<and>
      target_var st' = Some ret \<and>
      map name_hint adjs = [''x_adjoint'', ''y_adjoint''] \<and>
      list_all (\<lambda>a. \<not> is_dataflow a) adjs)"
proof -
  have ok: "result_error (FuncTransform ex_ext [ex_y, ex_x] ex_alias (init_state 50)) = None"
    by code_simp
  then obtain f' st' where
    run: "FuncTransform ex_ext [ex_y, ex_x] ex_alias (init_state 50) = Inr (f', st')"
    by (auto simp: result_error_None)
  from return_value_lists_adjoints_in_parameter_order [OF run] obtain blk n1 n2 ret adjs where
    "body f' = Normalize ex_ext (SeqExpr [blk] (Tuple n1 [Var ret, Tuple n2 (map Var adjs)]))"
    "target_var st' = Some ret"
    "map name_hint adjs =
       map (\<lambda>p. name_hint p @ ''_adjoint'')
         (filter (requires_grad [ex_y, ex_x]) (params ex_alias))"
    "list_all (\<lambda>a. \<not> is_dataflow a) adjs"
    by (elim exE conjE) (rule that)
  then have
    "FuncTransform ex_ext [ex_y, ex_x] ex_alias (init_state 50) = Inr (f', st') \<and>
     body f' = SeqExpr [blk] (Tuple n1 [Var ret, Tuple n2 (map Var adjs)]) \<and>
     target_var st' = Some ret \<and>
     map name_hint adjs = [''x_adjoint'', ''y_adjoint''] \<and>
     list_all (\<lambda>a. \<not> is_dataflow a) adjs"
    using run by (simp add: ex_ext_def ex_alias_def requires_grad_def ex_x_def ex_y_def)
  then have "\<exists>f' st' blk n1 n2 ret adjs.
      FuncTransform ex_ext [ex_y, ex_x] ex_alias (init_state 50) = Inr (f', st') \<and>
      body f' = SeqExpr [blk] (Tuple n1 [Var ret, Tuple n2 (map Var adjs)]) \<and>
      target_var st' = Some ret \<and>
      map name_hint adjs = [''x_adjoint'', ''y_adjoint''] \<and>
      list_all (\<lambda>a. \<not> is_dataflow a) adjs"
    by (intro exI)
  with ok show ?thesis by (rule conjI)
qed

text \<open>The claim as stated fails: with \<open>G = [y, x]\<close> the first adjoint of the returned
  tuple is the adjoint of \<open>x\<close>, the first parameter, not of \<open>y\<close>, the first element
  of \<open>G\<close>.\<close>

theorem adjoint_order_counterexample:
  "map name_hint [ex_y, ex_x] = [''y'', ''x''] \<and>
   map name_hint (params ex_alias) = [''x'', ''y''] \<and>
   returned_adjoint_names (FuncTransform ex_ext [ex_y, ex_x] ex_alias (init_state 50)) =
     Some [''x_adjoint'', ''y_adjoint'']"
  by code_simp


section \<open>The preconditions of the pass\<close>

lemma CheckTarget_scalar:
  "CheckTarget st t = Inr () \<Longrightarrow> no_stamps st \<Longrightarrow> IsScalarTensor t"
  by (auto simp: CheckTarget_def IsScalarTensor_def no_stamps_def checked_type_field_def
                 shape_def
           split: if_splits option.splits ty.splits shape.splits)

lemma IsScalarTensor_cong:
  "v_shape a = v_shape b \<Longrightarrow> v_type a = v_type b \<Longrightarrow> IsScalarTensor a = IsScalarTensor b"
  by (simp add: IsScalarTensor_def split: option.splits ty.splits)

lemma only_vars_alloc_no_stamps: "only_vars_alloc st st' \<Longrightarrow> no_stamps st \<Longrightarrow> no_stamps st'"
  by (simp add: only_vars_alloc_def no_stamps_def)

lemma create_input_adjoints_frame:
  "create_input_adjoints G ps nps st = Inr st' \<Longrightarrow> only_vars_alloc st st'"
proof (induction G ps nps st arbitrary: st' rule: create_input_adjoints.induct)
  case (1 G param ps new_param nps st)
  from "1.prems"(1) obtain st1 where
    c: "CreateAdjointVar new_param (\<not> requires_grad G param) st = Inr st1" and
    r: "create_input_adjoints G ps nps st1 = Inr st'"
    by (auto split: sum.splits)
  from CreateAdjointVar_result [OF c] "1.IH" [OF c r] show ?case
    by (blast intro: only_vars_alloc_trans)
qed simp_all

lemma FuncTransform_preconditions:
  assumes "FuncTransform ext G f (init_state n) = Inr (f', st')"
  shows "\<exists>block t. body f = SeqExpr [block] (Var t) \<and>
           (annotated_like_params t (params f) \<longrightarrow> IsScalarTensor t)"
proof -
  from FuncTransform_Inr [OF assms] obtain blocks r nps vr st1 bs where
    b: "body f = SeqExpr blocks r" and
    c: "clone_params (params f) Map.empty (init_state n) = (nps, vr, st1)" and
    m: "map (remap_block vr) blocks = [DataflowBlock bs]" and
    d: "differentiate ext G f nps bs (remap_expr vr r) (st1\<lparr>builder := map Reemit bs\<rparr>)
          = Inr (f', st')"
    by (elim exE conjE) (rule that)
  from m obtain block where blocks: "blocks = [block]" by auto
  from differentiate_Inr [OF d] obtain st2 target where
    cr: "create_input_adjoints G (params f) nps (st1\<lparr>builder := map Reemit bs\<rparr>) = Inr st2" and
    sb: "remap_expr vr r = Var target" and
    ct: "CheckTarget st2 target = Inr ()"
    by blast
  from sb have "is_Var r" using remap_expr_is_Var [of vr r] by simp
  then obtain t where r: "r = Var t" by (cases r) auto
  from clone_params_result [OF c] have "st1 = (init_state n)\<lparr>next_node := n + length (params f)\<rparr>"
    by (simp add: init_state_def)
  then have "no_stamps (st1\<lparr>builder := map Reemit bs\<rparr>)"
    by (simp add: no_stamps_def init_state_def)
  with create_input_adjoints_frame [OF cr] have "no_stamps st2"
    by (rule only_vars_alloc_no_stamps)
  with ct have scalar: "IsScalarTensor target" by (rule CheckTarget_scalar)
  have "IsScalarTensor t" if wf: "annotated_like_params t (params f)"
  proof (cases "vr (vid t)")
    case None
    with sb r scalar show ?thesis by simp
  next
    case (Some np)
    with sb r have target: "target = np" by simp
    from clone_params_remap_cases [OF c Some] obtain p j where
      p: "p \<in> set (params f)" "vid p = vid t" "np = clone_of (init_state n) j p"
      by auto
    with wf have "v_shape p = v_shape t \<and> v_type p = v_type t"
      by (auto simp: annotated_like_params_def list_all_iff)
    with target p(3) have "v_shape target = v_shape t" "v_type target = v_type t"
      by (simp_all add: clone_of_def)
    from IsScalarTensor_cong [OF this] scalar show ?thesis by simp
  qed
  with b blocks r show ?thesis by blast
qed

lemma SimpleAD_Inr:
  assumes "SimpleAD ext n m name G = Inr (m', ts, ss)"
  shows "\<exists>f f' st'. m name = Some (RelaxFunction f) \<and>
           list_all (\<lambda>input. v_node input \<in> set (map v_node (params f))) G \<and>
           FuncTransform ext G f (init_state n) = Inr (f', st') \<and>
           m' = Add m (name @ ''_adjoint'')
                  (WithAttr f' ''global_symbol'' (name @ ''_adjoint'')) \<and>
           ts = type_stamp st' \<and> ss = shape_stamp st'"
  using assms
  by (auto simp: SimpleAD_def Lookup_def bind_err_Inr_iff Let_def
           split: option.splits base_func.splits if_splits)

text \<open>
  Claim C8. The pass ends in a fatal error, and so yields no module, whenever the named
  function is not found in the module, or an entry of the requires-gradient list is not a
  parameter of \<open>F\<close>, or the body of \<open>F\<close> does not consist of exactly one region (in
  particular when it has more than one), or the terminator of the region is not a variable
  reference, or the target variable is not a scalar tensor (the target being annotated like
  the parameter it refers to, if it refers to one).
\<close>

theorem pass_aborts_on_violated_preconditions:
  assumes "(\<forall>f. m name \<noteq> Some (RelaxFunction f)) \<or>
           (\<exists>f. m name = Some (RelaxFunction f) \<and>
              ((\<exists>input \<in> set require_grads. v_node input \<notin> v_node ` set (params f)) \<or>
               (\<exists>blocks r. body f = SeqExpr blocks r \<and> length blocks \<noteq> 1) \<or>
               (\<exists>blocks r. body f = SeqExpr blocks r \<and> \<not> is_Var r) \<or>
               (\<exists>blocks t. body f = SeqExpr blocks (Var t) \<and> \<not> IsScalarTensor t \<and>
                   annotated_like_params t (params f))))"
  shows "\<exists>e. SimpleAD ext n m name require_grads = Inl e"
proof (cases "SimpleAD ext n m name require_grads")
  case (Inl e)
  then show ?thesis by blast
next
  case (Inr res)
  obtain m' ts ss where res: "res = (m', ts, ss)" by (cases res) auto
  from SimpleAD_Inr [OF Inr [unfolded res]] obtain f f' st' where
    found: "m name = Some (RelaxFunction f)" and
    inputs: "list_all (\<lambda>input. v_node input \<in> set (map v_node (params f))) require_grads" and
    run: "FuncTransform ext require_grads f (init_state n) = Inr (f', st')"
    by blast
  from FuncTransform_preconditions [OF run] obtain block t where
    shape: "body f = SeqExpr [block] (Var t)" and
    scalar: "annotated_like_params t (params f) \<longrightarrow> IsScalarTensor t"
    by blast
  from inputs have "\<forall>input \<in> set require_grads. v_node input \<in> v_node ` set (params f)"
    by (simp add: list_all_iff)
  with assms found shape scalar have False by auto
  then show ?thesis ..
qed

theorem pass_aborts_on_violated_preconditions_witness:
  "(\<exists>e. SimpleAD ex_ext 50 ex_bad_module ''missing'' [] = Inl e) \<and>
   (\<exists>e. SimpleAD ex_ext 50 ex_bad_module ''prim'' [] = Inl e) \<and>
   (\<exists>e. SimpleAD ex_ext 50 ex_bad_module ''alias'' [ex_lv] = Inl e) \<and>
   (\<exists>e. SimpleAD ex_ext 50 ex_bad_module ''two_blocks'' [] = Inl e) \<and>
   (\<exists>e. SimpleAD ex_ext 50 ex_bad_module ''returns_tuple'' [] = Inl e) \<and>
   (\<exists>e. SimpleAD ex_ext 50 ex_bad_module ''matrix_target'' [] = Inl e)"
proof (intro conjI)
  show "\<exists>e. SimpleAD ex_ext 50 ex_bad_module ''missing'' [] = Inl e"
    by (rule pass_aborts_on_violated_preconditions) (simp add: ex_bad_module_def)
  show "\<exists>e. SimpleAD ex_ext 50 ex_bad_module ''prim'' [] = Inl e"
    by (rule pass_aborts_on_violated_preconditions) (simp add: ex_bad_module_def)
  show "\<exists>e. SimpleAD ex_ext 50 ex_bad_module ''alias'' [ex_lv] = Inl e"
    by (rule pass_aborts_on_violated_preconditions)
       (simp add: ex_bad_module_def ex_alias_def ex_lv_def ex_x_def ex_y_def)
  show "\<exists>e. SimpleAD ex_ext 50 ex_bad_module ''two_blocks'' [] = Inl e"
    by (rule pass_aborts_on_violated_preconditions)
       (simp add: ex_bad_module_def ex_two_blocks_def)
  show "\<exists>e. SimpleAD ex_ext 50 ex_bad_module ''returns_tuple'' [] = Inl e"
    by (rule pass_aborts_on_violated_preconditions)
       (simp add: ex_bad_module_def ex_returns_tuple_def)
  show "\<exists>e. SimpleAD ex_ext 50 ex_bad_module ''matrix_target'' [] = Inl e"
    by (rule pass_aborts_on_violated_preconditions)
       (simp add: ex_bad_module_def ex_matrix_target_def ex_lm_def ex_a_def ex_b_def
          IsScalarTensor_def annotated_like_params_def matrix_f32_def)
qed


section \<open>The writes of the pass stay on its own nodes\<close>





























subsection \<open>The fields overwritten where a run ends\<close>

text \<open>On a run that returns, the functions that follow a run to its failing step arrive
  at the state returned: they give the fields overwritten where the run ends, whether it
  returns or aborts.\<close>

lemma written_fields_only_alloc: "only_alloc st st' \<Longrightarrow> written_fields st' = written_fields st"
  by (simp add: only_alloc_def written_fields_def)

lemma written_fields_set_adjoint_expr:
  "written_fields (set_adjoint_expr v e st) = written_fields st"
  by (simp add: set_adjoint_expr_def written_fields_def)

lemma UpdateExprMap_abort_returns:
  "UpdateExprMap st base inc = Inr st' \<Longrightarrow> UpdateExprMap_abort st base inc = written_fields st'"
  "UpdateExprMap_fields st bs incs = Inr st' \<Longrightarrow>
     UpdateExprMap_fields_abort st bs incs = written_fields st'"
proof (induction st base inc and st bs incs arbitrary: st' and st'
        rule: UpdateExprMap_UpdateExprMap_fields.induct)
  case (1 st v increment)
  show ?case
  proof (cases "adjoint_expr_map st (v_node v)")
    case None
    with "1.prems" show ?thesis
      by (auto simp: written_fields_set_adjoint_expr split: option.splits)
  next
    case (Some old)
    with "1.prems" obtain updated st1 where
      a: "DoAdd st old increment = Inr (updated, st1)" and
      st': "st' = set_adjoint_expr v updated st1"
      by (auto split: sum.splits prod.splits)
    from written_fields_only_alloc [OF DoAdd_frame(1) [OF a]] st' show ?thesis
      by (simp add: written_fields_set_adjoint_expr)
  qed
next
  case (2 st k base_fields increment)
  from "2.prems" obtain n1 fields1 where
    inc: "increment = Tuple n1 fields1" and
    f: "UpdateExprMap_fields st base_fields fields1 = Inr st'"
    by (auto split: expr.splits)
  from "2.IH" [OF inc f] inc show ?case by simp
next
  case (3 st k tuple index increment)
  from "3.prems" obtain v m shape_fields st1 j origin_fields updated st2 where
    t: "tuple = Var v" "shape st v = ShapeTuple m shape_fields" and
    i: "init_tuple_adjoint v shape_fields st = Inr st1" and
    a: "DoAddInTuple st1 origin_fields index increment = Inr (updated, st2)" and
    st': "st' = set_adjoint_expr v updated st2"
    by (auto split: expr.splits shape.splits sum.splits option.splits prod.splits)
  from written_fields_only_alloc [OF DoAddInTuple_frame [OF a]] t i st' show ?case
    by (simp add: written_fields_set_adjoint_expr)
next
  case (7 st b bs i incs)
  from "7.prems" obtain st1 where
    a: "UpdateExprMap st b i = Inr st1" and r: "UpdateExprMap_fields st1 bs incs = Inr st'"
    by (auto split: sum.splits)
  from "7.IH"(2) [OF a r] a show ?case by simp
qed simp_all

lemma update_args_abort_returns:
  "update_args st args ps = Inr st' \<Longrightarrow> update_args_abort st args ps = written_fields st'"
proof (induction st args ps arbitrary: st' rule: update_args.induct)
  case (3 st a args p partials)
  from "3.prems" obtain arg st1 where
    a: "a = Var arg" and u: "UpdateExprMap st (Var arg) p = Inr st1" and
    r: "update_args st1 args partials = Inr st'"
    by (auto split: expr.splits sum.splits)
  from "3.IH" [OF a u r] a u show ?case by simp
qed simp_all

lemma back_propagate_abort_returns:
  assumes "back_propagate ext a val ae st = Inr st'"
  shows "back_propagate_abort ext a val ae st = written_fields st'"
proof (cases val)
  case (Call k f args at)
  with assms obtain ps st1 where
    g: "call_gradient ext f (Call k f args at) a st = Inr (ps, st1)" and
    len: "length ps = length args" and
    u: "update_args st1 args ps = Inr st'"
    by (auto simp: back_propagate_def bind_err_Inr_iff split: if_splits)
  from update_args_abort_returns [OF u] Call g len show ?thesis
    by (simp add: back_propagate_abort_def)
qed (use assms in \<open>auto simp: back_propagate_def back_propagate_abort_def
                     simp del: UpdateExprMap.simps UpdateExprMap_abort.simps
                     dest: UpdateExprMap_abort_returns(1)\<close>)

lemma ReverseVisit_abort_returns:
  assumes "ReverseVisit ext x val st = Inr st'"
  shows "ReverseVisit_abort ext x val st = written_fields st'"
proof -
  from assms obtain st1 a r where
    c: "CreateAdjointVar x True st = Inr st1" and
    ma: "map_at (adjoint_var_map st1) (v_node x) = Inr a" and
    s: "seed_or_skip a x st1 = Inr r" and
    rest: "(case r of None \<Rightarrow> Inr st1
            | Some st2 \<Rightarrow>
                bind_err (map_at (adjoint_expr_map st2) (v_node x)) (\<lambda>ae.
                bind_err (BindAndEmit a ae st2) (\<lambda>st3.
                  back_propagate ext a val ae st3))) = Inr st'"
    by (auto simp: ReverseVisit_def bind_err_Inr_iff)
  show ?thesis
  proof (cases r)
    case None
    with rest c ma s show ?thesis by (simp add: ReverseVisit_abort_def)
  next
    case (Some st2)
    with rest obtain ae st3 where
      e: "map_at (adjoint_expr_map st2) (v_node x) = Inr ae" and
      b: "BindAndEmit a ae st2 = Inr st3" and
      p: "back_propagate ext a val ae st3 = Inr st'"
      by (auto simp: bind_err_Inr_iff)
    from back_propagate_abort_returns [OF p] c ma s Some e b show ?thesis
      by (simp add: ReverseVisit_abort_def)
  qed
qed

lemma reverse_loop_abort_returns:
  "reverse_loop ext bs st = Inr st' \<Longrightarrow> reverse_loop_abort ext bs st = written_fields st'"
proof (induction bs arbitrary: st)
  case Nil
  then show ?case by simp
next
  case (Cons b bs)
  from Cons.prems obtain st1 where
    step: "reverse_step ext b st = Inr st1" and loop: "reverse_loop ext bs st1 = Inr st'"
    by (auto split: sum.splits)
  from Cons.IH [OF loop] step show ?case by simp
qed

lemma emit_input_adjoint_abort_returns:
  assumes "emit_input_adjoint np st = Inr (a, t, st')"
  shows "emit_input_adjoint_abort np st = written_fields st'"
  using assms
  by (auto simp: emit_input_adjoint_def emit_input_adjoint_abort_def bind_err_Inr_iff)

lemma emit_input_adjoints_abort_returns:
  "emit_input_adjoints G ps nps st = Inr (outs, tys, st') \<Longrightarrow>
     emit_input_adjoints_abort G ps nps st = written_fields st'"
proof (induction G ps nps st arbitrary: outs tys st' rule: emit_input_adjoints.induct)
  case (1 G param ps new_param nps st)
  show ?case
  proof (cases "requires_grad G param")
    case True
    with "1.prems" obtain a t st1 outs' tys' where
      e: "emit_input_adjoint new_param st = Inr (a, t, st1)" and
      r: "emit_input_adjoints G ps nps st1 = Inr (outs', tys', st')"
      by (auto split: sum.splits prod.splits)
    from "1.IH"(1) [OF True e refl refl r] True e show ?thesis by simp
  next
    case False
    with "1.prems" "1.IH"(2) show ?thesis by auto
  qed
qed simp_all

lemma FuncTransform_abort_returns:
  assumes "FuncTransform ext G f st = Inr (f', st')"
  shows "FuncTransform_abort ext G f st = written_fields st'"
proof -
  from FuncTransform_Inr [OF assms] obtain blocks r nps vr st1 bs where
    b: "body f = SeqExpr blocks r" and
    c: "clone_params (params f) Map.empty st = (nps, vr, st1)" and
    m: "map (remap_block vr) blocks = [DataflowBlock bs]" and
    d: "differentiate ext G f nps bs (remap_expr vr r) (st1\<lparr>builder := map Reemit bs\<rparr>)
          = Inr (f', st')"
    by (elim exE conjE) (rule that)
  from differentiate_Inr [OF d] obtain st2 target st3 outs tys st4 where
    cr: "create_input_adjoints G (params f) nps (st1\<lparr>builder := map Reemit bs\<rparr>) = Inr st2" and
    tg: "remap_expr vr r = Var target" and
    ct: "CheckTarget st2 target = Inr ()" and
    rl: "reverse_loop ext (rev bs) (st2\<lparr>target_var := Some target\<rparr>) = Inr st3" and
    em: "emit_input_adjoints G (params f) nps st3 = Inr (outs, tys, st4)" and
    st': "st' = st4\<lparr>next_node := next_node st4 + 3\<rparr>"
    by (elim exE conjE) (rule that)
  from emit_input_adjoints_abort_returns [OF em] cr tg ct rl st' have
    "differentiate_abort ext G f nps bs (remap_expr vr r) (st1\<lparr>builder := map Reemit bs\<rparr>)
       = written_fields st'"
    by (simp add: differentiate_abort_def written_fields_def)
  with b c m show ?thesis by (simp add: FuncTransform_abort_def)
qed
















end
